theory Spec2Isabelle
  imports Main
begin

section \<open>Strings, characters and the library calls of \<open>find_versions.py\<close>\<close>

text \<open>
  A Python \<open>str\<close> is a sequence of Unicode code points, so a string is the list of
  the integers that \<open>ord\<close> gives for its characters; \<open>py\<close> turns a literal of the
  theory into such a string. Paths follow the POSIX flavour of \<open>os.path\<close>
  and \<open>pathlib\<close>: the separator is \<open>/\<close> and matching is case-sensitive.
\<close>

type_synonym pystr = "int list"

abbreviation ord :: "char \<Rightarrow> int" where
  "ord \<equiv> of_char"

definition py :: "string \<Rightarrow> pystr" where
  "py cs = map ord cs"

text \<open>The class \<open>[a-z]\<close> of a \<open>str\<close> pattern without flags: the code points 97 to 122.\<close>

definition is_lower :: "int \<Rightarrow> bool" where
  "is_lower c = (ord (CHR ''a'') \<le> c \<and> c \<le> ord (CHR ''z''))"

text \<open>
  The class \<open>\d\<close> of a \<open>str\<close> pattern and the conversion \<open>int\<close> both accept every
  Unicode decimal digit (general category Nd). In the character database these come
  in runs of ten consecutive code points with the values 0 to 9; \<open>decimal_zeros\<close>
  lists the first code point of every run (Unicode 14.0, the table of CPython 3.11),
  and \<open>decimal\<close> is \<open>unicodedata.decimal\<close>.
\<close>

definition decimal_zeros :: "int list" where
  "decimal_zeros =
     [48, 1632, 1776, 1984, 2406, 2534, 2662, 2790, 2918, 3046, 3174, 3302, 3430, 3558,
      3664, 3792, 3872, 4160, 4240, 6112, 6160, 6470, 6608, 6784, 6800, 6992, 7088, 7232,
      7248, 42528, 43216, 43264, 43472, 43504, 43600, 44016, 65296, 66720, 68912, 69734,
      69872, 69942, 70096, 70384, 70736, 70864, 71248, 71360, 71472, 71904, 72016, 72784,
      73040, 73120, 92768, 92864, 93008, 120782, 120792, 120802, 120812, 120822, 123200,
      123632, 125264, 130032]"

definition decimal :: "int \<Rightarrow> int option" where
  "decimal c =
     (case filter (\<lambda>z. z \<le> c \<and> c < z + 10) decimal_zeros of
        [] \<Rightarrow> None
      | z # _ \<Rightarrow> Some (c - z))"

definition is_digit :: "int \<Rightarrow> bool" where
  "is_digit c = (decimal c \<noteq> None)"

definition newline :: int where
  "newline = 10"

text \<open>
  The regular-expression anchor \<open>$\<close> (no \<open>MULTILINE\<close> flag) holds at the end of the
  string and just before a newline that is the last character. The argument is the
  text that remains to the right of the position.
\<close>

definition at_dollar :: "pystr \<Rightarrow> bool" where
  "at_dollar rest = (rest = [] \<or> rest = [newline])"

text \<open>\<open>str.rfind(c)\<close>: the index of the last occurrence, \<open>None\<close> for Python's \<open>-1\<close>.\<close>

fun rfind :: "int \<Rightarrow> pystr \<Rightarrow> nat option" where
  "rfind c [] = None"
| "rfind c (x # xs) =
     (case rfind c xs of
        Some i \<Rightarrow> Some (Suc i)
      | None \<Rightarrow> if x = c then Some 0 else None)"

text \<open>
  \<open>os.path.splitext\<close> (\<open>genericpath._splitext\<close> with separator \<open>/\<close>): the extension
  starts at the last dot, provided that dot lies after the last separator and some
  character between them is not a dot (leading dots of a name are not an extension).
\<close>

definition splitext :: "pystr \<Rightarrow> pystr \<times> pystr" where
  "splitext p =
     (let filenameIndex = (case rfind (ord (CHR ''/'')) p of None \<Rightarrow> 0 | Some i \<Rightarrow> Suc i)
      in case rfind (ord (CHR ''.'')) p of
           None \<Rightarrow> (p, [])
         | Some dotIndex \<Rightarrow>
             if filenameIndex \<le> dotIndex \<and>
                list_ex (\<lambda>c. c \<noteq> ord (CHR ''.''))
                  (take (dotIndex - filenameIndex) (drop filenameIndex p))
             then (take dotIndex p, drop dotIndex p)
             else (p, []))"

text \<open>\<open>os.path.basename\<close> (POSIX): everything after the last separator.\<close>

definition basename :: "pystr \<Rightarrow> pystr" where
  "basename p = (case rfind (ord (CHR ''/'')) p of None \<Rightarrow> p | Some i \<Rightarrow> drop (Suc i) p)"

section \<open>The name parser\<close>

text \<open>
  The errors of the operating system that matter to \<open>Path.exists\<close>, and the
  exceptions that the script can raise.
\<close>

datatype errno = ENOENT | ENOTDIR | EBADF | ELOOP | EACCES | ENAMETOOLONG | OtherErrno nat

datatype py_error = IndexError | OSError errno

text \<open>
  The shot-identity pattern comes from the configuration file, so the compiled pattern
  is a parameter: \<open>rx s pos\<close> is \<open>re.compile(shot_regex).match(s, pos)\<close>, the attempt to
  match the pattern with the match starting exactly at index \<open>pos\<close> of \<open>s\<close>. It yields
  \<open>None\<close> when there is no such match and otherwise the values of the capture groups
  1, 2, ... (\<open>None\<close> for a group that took no part in the match). \<open>re.match(shot_regex, s)\<close>
  is the attempt at index 0; \<open>re.search\<close> would try every index in turn.
\<close>

type_synonym regex = "pystr \<Rightarrow> nat \<Rightarrow> pystr option list option"

definition re_match :: "regex \<Rightarrow> pystr \<Rightarrow> pystr option list option" where
  "re_match rx s = rx s 0"

text \<open>\<open>m.group(1)\<close> raises \<open>IndexError\<close> when the pattern has no capture group.\<close>

definition group1 :: "pystr option list \<Rightarrow> py_error + pystr option" where
  "group1 gs = (case gs of [] \<Rightarrow> Inl IndexError | g # _ \<Rightarrow> Inr g)"

definition extract_shot_name :: "pystr \<Rightarrow> regex \<Rightarrow> py_error + pystr option" where
  "extract_shot_name filename shot_regex =
     (let stem = fst (splitext filename)
      in case re_match shot_regex stem of
           Some m \<Rightarrow> group1 m
         | None \<Rightarrow> Inr None)"

text \<open>
  \<open>re.sub(r"[a-z]$", "", shot_name)\<close>: scan from the left; where the pattern matches
  (a lowercase letter with \<open>$\<close> holding behind it) the letter is replaced by the empty
  string and the scan goes on behind the match, any other character is copied.
\<close>

fun shot_base :: "pystr \<Rightarrow> pystr" where
  "shot_base [] = []"
| "shot_base (c # cs) =
     (if is_lower c \<and> at_dollar cs then shot_base cs else c # shot_base cs)"

text \<open>
  The strict version token \<open>_([a-z])(\d+)_vfx$\<close>. \<open>version_re_match\<close> is a match that
  starts at the head of the string: an underscore, one lowercase letter, the longest
  run of digits (at least one; since the next character of the pattern is \<open>_\<close>, a
  shorter run never matches where the longest does not), the literal \<open>_vfx\<close>, and
  \<open>$\<close>. The result is the pair of groups 1 and 2. \<open>version_re_search\<close> is
  \<open>re.search\<close>: the match at the leftmost position that has one.
\<close>

definition version_re_match :: "pystr \<Rightarrow> (int \<times> pystr) option" where
  "version_re_match s =
     (case s of
        u # l # rest \<Rightarrow>
          if u = ord (CHR ''_'') \<and> is_lower l \<and> takeWhile is_digit rest \<noteq> [] \<and>
             take 4 (dropWhile is_digit rest) = py ''_vfx'' \<and>
             at_dollar (drop 4 (dropWhile is_digit rest))
          then Some (l, takeWhile is_digit rest)
          else None
      | _ \<Rightarrow> None)"

fun version_re_search :: "pystr \<Rightarrow> (int \<times> pystr) option" where
  "version_re_search [] = None"
| "version_re_search (c # cs) =
     (case version_re_match (c # cs) of
        Some m \<Rightarrow> Some m
      | None \<Rightarrow> version_re_search cs)"

text \<open>The fallback label pattern \<open>_(v\d+)\<close>, searched for in the same way.\<close>

fun v_re_search :: "pystr \<Rightarrow> pystr option" where
  "v_re_search (u # v # rest) =
     (if u = ord (CHR ''_'') \<and> v = ord (CHR ''v'') \<and> takeWhile is_digit rest \<noteq> []
      then Some (v # takeWhile is_digit rest)
      else v_re_search (v # rest))"
| "v_re_search _ = None"

text \<open>
  \<open>_extract_version_label\<close>: the first pattern \<open>_([a-z]\d+)_vfx$\<close> differs from the
  strict version token only in its grouping, its single group is the letter followed
  by the digits.
\<close>

definition extract_version_label :: "pystr \<Rightarrow> pystr" where
  "extract_version_label filename =
     (let stem = fst (splitext filename)
      in case version_re_search stem of
           Some (l, ds) \<Rightarrow> l # ds
         | None \<Rightarrow> (case v_re_search stem of Some g \<Rightarrow> g | None \<Rightarrow> []))"

section \<open>Paths and the directory tree\<close>

text \<open>
  A \<open>pathlib\<close> path (POSIX flavour) is its root (empty, \<open>/\<close> or \<open>//\<close>) and the
  names behind it. Parsing a string drops empty and \<open>.\<close> components.
\<close>

record pure_path =
  anchor :: pystr
  names :: "pystr list"

fun split_on :: "int \<Rightarrow> pystr \<Rightarrow> pystr list" where
  "split_on s [] = [[]]"
| "split_on s (c # cs) =
     (if c = s then [] # split_on s cs
      else (case split_on s cs of w # ws \<Rightarrow> (c # w) # ws | [] \<Rightarrow> [[c]]))"

definition splitroot :: "pystr \<Rightarrow> pystr \<times> pystr" where
  "splitroot part =
     (case part of
        [] \<Rightarrow> ([], part)
      | c # _ \<Rightarrow>
          if c = ord (CHR ''/'') then
            (let stripped_part = dropWhile (\<lambda>x. x = ord (CHR ''/'')) part
             in if length part - length stripped_part = 2
                then (py ''//'', stripped_part) else (py ''/'', stripped_part))
          else ([], part))"

definition Path :: "pystr \<Rightarrow> pure_path" where
  "Path s =
     (let (r, rel) = splitroot s
      in \<lparr>anchor = r,
          names = filter (\<lambda>x. x \<noteq> [] \<and> x \<noteq> py ''.'') (split_on (ord (CHR ''/'')) rel)\<rparr>)"

text \<open>The operator \<open>/\<close>: an anchored right operand replaces the path.\<close>

definition joinpath :: "pure_path \<Rightarrow> pystr \<Rightarrow> pure_path" where
  "joinpath p s =
     (let q = Path s
      in if anchor q \<noteq> [] then q else p\<lparr>names := names p @ names q\<rparr>)"

text \<open>A directory entry found by \<open>glob\<close> is appended as it is.\<close>

definition make_child_relpath :: "pure_path \<Rightarrow> pystr \<Rightarrow> pure_path" where
  "make_child_relpath p name = p\<lparr>names := names p @ [name]\<rparr>"

fun join_sep :: "pystr list \<Rightarrow> pystr" where
  "join_sep [] = []"
| "join_sep [x] = x"
| "join_sep (x # y # ys) = x @ py ''/'' @ join_sep (y # ys)"

definition path_str :: "pure_path \<Rightarrow> pystr" where
  "path_str p =
     (if anchor p = [] \<and> names p = [] then py ''.'' else anchor p @ join_sep (names p))"

definition path_name :: "pure_path \<Rightarrow> pystr" where
  "path_name p = (case rev (names p) of [] \<Rightarrow> [] | n # _ \<Rightarrow> n)"

text \<open>\<open>PurePath.suffix\<close> and \<open>PurePath.stem\<close>, both from the last dot of the name.\<close>

definition name_suffix :: "pystr \<Rightarrow> pystr" where
  "name_suffix name =
     (case rfind (ord (CHR ''.'')) name of
        Some i \<Rightarrow> if 0 < i \<and> Suc i < length name then drop i name else []
      | None \<Rightarrow> [])"

definition name_stem :: "pystr \<Rightarrow> pystr" where
  "name_stem name =
     (case rfind (ord (CHR ''.'')) name of
        Some i \<Rightarrow> if 0 < i \<and> Suc i < length name then take i name else name
      | None \<Rightarrow> name)"

definition path_suffix :: "pure_path \<Rightarrow> pystr" where
  "path_suffix p = name_suffix (path_name p)"

definition path_stem :: "pure_path \<Rightarrow> pystr" where
  "path_stem p = name_stem (path_name p)"

text \<open>
  The script only reads the directory tree. The tree is what \<open>os.stat\<close> answers for a
  path: a file, a directory with its entries in the order in which \<open>os.scandir\<close>
  enumerates them, an error of the operating system, or a path that cannot be passed
  to the system at all (\<open>ValueError\<close>, as for an embedded null character).
\<close>

datatype node = File | Dir "pystr list"

datatype stat_result = Found node | Failed errno | Unencodable

type_synonym filesystem = "pure_path \<Rightarrow> stat_result"

text \<open>
  \<open>Path.exists\<close> and \<open>Path.is_dir\<close> (CPython 3.8 to 3.11): the errors \<open>ENOENT\<close>,
  \<open>ENOTDIR\<close>, \<open>EBADF\<close> and \<open>ELOOP\<close> and a \<open>ValueError\<close> mean that the path is not
  there; any other \<open>OSError\<close> is raised again.
\<close>

definition ignore_error :: "errno \<Rightarrow> bool" where
  "ignore_error e = (e \<in> set [ENOENT, ENOTDIR, EBADF, ELOOP])"

definition path_exists :: "filesystem \<Rightarrow> pure_path \<Rightarrow> py_error + bool" where
  "path_exists fs p =
     (case fs p of
        Found n \<Rightarrow> Inr True
      | Failed e \<Rightarrow> if ignore_error e then Inr False else Inl (OSError e)
      | Unencodable \<Rightarrow> Inr False)"

definition is_dir :: "filesystem \<Rightarrow> pure_path \<Rightarrow> py_error + bool" where
  "is_dir fs p =
     (case fs p of
        Found n \<Rightarrow> Inr (n \<noteq> File)
      | Failed e \<Rightarrow> if ignore_error e then Inr False else Inl (OSError e)
      | Unencodable \<Rightarrow> Inr False)"

text \<open>
  \<open>fnmatch name pat\<close> for a one-component pattern: \<open>*\<close> stands for any run of
  characters, \<open>?\<close> for exactly one, any other character for itself, and the whole name
  has to be matched. Bracket expressions, the separator \<open>/\<close> and \<open>**\<close> are outside
  this model of \<open>Path.glob\<close> (there \<open>pathlib\<close> matches otherwise or raises);
  \<open>glob_literal\<close> marks the text that is free of them and of the two wildcards, and
  every theorem below about a lookup in a directory asks it of the shot name and of
  the extension.
\<close>

fun fnmatch :: "pystr \<Rightarrow> pystr \<Rightarrow> bool" where
  "fnmatch [] [] = True"
| "fnmatch (c # cs) [] = False"
| "fnmatch [] (p # ps) = (p = ord (CHR ''*'') \<and> fnmatch [] ps)"
| "fnmatch (c # cs) (p # ps) =
     (if p = ord (CHR ''*'') then fnmatch (c # cs) ps \<or> fnmatch cs (p # ps)
      else if p = ord (CHR ''?'') then fnmatch cs ps
      else p = c \<and> fnmatch cs ps)"

definition glob_literal :: "pystr \<Rightarrow> bool" where
  "glob_literal s = (\<forall>c \<in> set s. c \<notin> set (py ''*?[/''))"

text \<open>
  \<open>Path.glob\<close> with a one-component wildcard pattern: nothing unless the path is a
  directory, otherwise the children whose names match, in the order of enumeration.
\<close>

definition glob :: "filesystem \<Rightarrow> pure_path \<Rightarrow> pystr \<Rightarrow> py_error + pure_path list" where
  "glob fs p pat =
     (case is_dir fs p of
        Inl e \<Rightarrow> Inl e
      | Inr d \<Rightarrow>
          if \<not> d then Inr []
          else (case fs p of
                  Found (Dir entries) \<Rightarrow>
                    Inr (map (make_child_relpath p) (filter (\<lambda>name. fnmatch name pat) entries))
                | _ \<Rightarrow> Inr []))"

section \<open>The path deriver\<close>

definition build_vfx_path :: "pystr \<Rightarrow> pystr \<Rightarrow> pystr \<Rightarrow> pure_path" where
  "build_vfx_path shot_name shot_tree_root version_subfolder =
     (let base = shot_base shot_name;
          seq = hd (split_on (ord (CHR ''_'')) base);
          shot_dir = base
      in joinpath (joinpath (joinpath (Path shot_tree_root) seq) shot_dir) version_subfolder)"

section \<open>The version resolver\<close>

text \<open>The loop over the patterns of \<open>_find_version_zero\<close>: the first pattern with a match wins.\<close>

fun version_zero_loop ::
  "filesystem \<Rightarrow> pure_path \<Rightarrow> pystr \<Rightarrow> pystr list \<Rightarrow> py_error + pystr option" where
  "version_zero_loop fs vfx_dir file_ext [] = Inr None"
| "version_zero_loop fs vfx_dir file_ext (pat # pats) =
     (case glob fs vfx_dir pat of
        Inl e \<Rightarrow> Inl e
      | Inr found \<Rightarrow>
          (case filter (\<lambda>f. path_suffix f = file_ext) found of
             f # _ \<Rightarrow> Inr (Some (path_str f))
           | [] \<Rightarrow> version_zero_loop fs vfx_dir file_ext pats))"

definition find_version_zero ::
  "filesystem \<Rightarrow> pystr \<Rightarrow> pure_path \<Rightarrow> pystr \<Rightarrow> py_error + pystr option" where
  "find_version_zero fs shot_name vfx_dir file_ext =
     (case path_exists fs vfx_dir of
        Inl e \<Rightarrow> Inl e
      | Inr ex \<Rightarrow>
          if \<not> ex then Inr None
          else
            let base = shot_base shot_name;
                patterns = [base @ py ''_*_?0000_vfx'' @ file_ext,
                            base @ py ''_?0000_vfx'' @ file_ext]
            in version_zero_loop fs vfx_dir file_ext patterns)"

text \<open>
  \<open>int(m.group(2))\<close> on a run of decimal digits. (A directory entry has at most 255
  characters, far below the length at which \<open>int\<close> refuses a string.)
\<close>

definition digit_val :: "int \<Rightarrow> int" where
  "digit_val c = (case decimal c of Some v \<Rightarrow> v | None \<Rightarrow> 0)"

definition int_of_digits :: "pystr \<Rightarrow> int" where
  "int_of_digits ds = foldl (\<lambda>a c. 10 * a + digit_val c) 0 ds"

text \<open>\<open>exclude_filename and f.name == exclude_filename\<close>: \<open>None\<close> and the empty string are falsy.\<close>

definition excluded :: "pystr option \<Rightarrow> pure_path \<Rightarrow> bool" where
  "excluded exclude_filename f =
     (case exclude_filename of
        None \<Rightarrow> False
      | Some e \<Rightarrow> e \<noteq> [] \<and> path_name f = e)"

text \<open>The loop that extends \<open>matching_files\<close> with the filtered matches of each pattern.\<close>

fun matching_loop ::
  "filesystem \<Rightarrow> pure_path \<Rightarrow> pystr \<Rightarrow> pystr list \<Rightarrow> pure_path list \<Rightarrow>
   py_error + pure_path list" where
  "matching_loop fs vfx_dir file_ext [] matching_files = Inr matching_files"
| "matching_loop fs vfx_dir file_ext (pat # pats) matching_files =
     (case glob fs vfx_dir pat of
        Inl e \<Rightarrow> Inl e
      | Inr found \<Rightarrow>
          matching_loop fs vfx_dir file_ext pats
            (matching_files @ filter (\<lambda>f. path_suffix f = file_ext) found))"

fun collect_versions :: "pystr option \<Rightarrow> pure_path list \<Rightarrow> (int \<times> pystr) list" where
  "collect_versions exclude_filename [] = []"
| "collect_versions exclude_filename (f # matching_files) =
     (if excluded exclude_filename f then collect_versions exclude_filename matching_files
      else (case version_re_search (path_stem f) of
              Some (l, ds) \<Rightarrow>
                (int_of_digits ds, path_str f) # collect_versions exclude_filename matching_files
            | None \<Rightarrow> collect_versions exclude_filename matching_files))"

text \<open>
  \<open>list.sort(key=..., reverse=True)\<close> is stable: elements with equal keys keep their
  order. It is the stable ascending sort of the reversed list, reversed.
\<close>

definition sort_reverse :: "(int \<times> pystr) list \<Rightarrow> (int \<times> pystr) list" where
  "sort_reverse versions = rev (sort_key fst (rev versions))"

definition find_latest_version ::
  "filesystem \<Rightarrow> pystr \<Rightarrow> pure_path \<Rightarrow> pystr \<Rightarrow> pystr option \<Rightarrow> py_error + pystr option" where
  "find_latest_version fs shot_name vfx_dir file_ext exclude_filename =
     (case path_exists fs vfx_dir of
        Inl e \<Rightarrow> Inl e
      | Inr ex \<Rightarrow>
          if \<not> ex then Inr None
          else
            let patterns = [shot_name @ py ''_*_?*_vfx'' @ file_ext]
            in (case matching_loop fs vfx_dir file_ext patterns [] of
                  Inl e \<Rightarrow> Inl e
                | Inr matching_files \<Rightarrow>
                    if matching_files = [] then Inr None
                    else
                      let versions = collect_versions exclude_filename matching_files
                      in (case sort_reverse versions of
                            [] \<Rightarrow> Inr None
                          | v # _ \<Rightarrow> Inr (Some (snd v)))))"

section \<open>The orchestrator\<close>

text \<open>
  The configuration after \<open>yaml.safe_load\<close>; \<open>config.get(key, default)\<close> supplies the
  default of a key that is not there.
\<close>

record config =
  shot_regex :: regex
  shot_tree_root :: pystr
  version_subfolder :: "pystr option"
  file_extension :: "pystr option"

definition config_get :: "pystr option \<Rightarrow> pystr \<Rightarrow> pystr" where
  "config_get v dflt = (case v of None \<Rightarrow> dflt | Some x \<Rightarrow> x)"

text \<open>A selected Read node: the value of its \<open>file\<close> knob and its position.\<close>

record read_node =
  file_value :: pystr
  xpos :: int
  ypos :: int

type_synonym entry = "pystr \<times> pystr \<times> read_node"

text \<open>
  The loop that fills \<open>entries\<close>: a node whose shot name is \<open>None\<close> or empty is left out.
\<close>

fun parse_entries :: "regex \<Rightarrow> read_node list \<Rightarrow> entry list \<Rightarrow> py_error + entry list" where
  "parse_entries rx [] entries = Inr entries"
| "parse_entries rx (node # selected) entries =
     (let filepath = file_value node;
          filename = basename filepath
      in case extract_shot_name filename rx of
           Inl e \<Rightarrow> Inl e
         | Inr shot_name \<Rightarrow>
             (let ver_label = extract_version_label filename
              in case shot_name of
                   None \<Rightarrow> parse_entries rx selected entries
                 | Some s \<Rightarrow>
                     if s \<noteq> [] then parse_entries rx selected (entries @ [(s, ver_label, node)])
                     else parse_entries rx selected entries))"

text \<open>
  The resolution loop. \<open>task.isCancelled()\<close> is answered by the host application; it is
  a parameter, a function of \<open>step\<close>, the number of lookups that are complete when the
  question is asked. Two fields are not variables of the script: \<open>events\<close> records, in
  order, each call of \<open>isCancelled\<close> and each lookup that is started, so that their
  order can be stated, and \<open>raised\<close> holds the exception of a lookup, which ends the
  loop and the script.
\<close>

datatype event = IsCancelled | FindVersionZero | FindLatestVersion

record loop_state =
  v0_results :: "pystr option list"
  latest_results :: "pystr option list"
  cancelled :: bool
  raised :: "py_error option"
  step :: nat
  events :: "event list"

definition initial_state :: loop_state where
  "initial_state =
     \<lparr>v0_results = [], latest_results = [], cancelled = False, raised = None, step = 0,
      events = []\<rparr>"

fun resolve_loop ::
  "filesystem \<Rightarrow> (nat \<Rightarrow> bool) \<Rightarrow> pystr \<Rightarrow> pystr \<Rightarrow> pystr \<Rightarrow> entry list \<Rightarrow>
   loop_state \<Rightarrow> loop_state" where
  "resolve_loop fs isCancelled tree_root subfolder file_ext [] st = st"
| "resolve_loop fs isCancelled tree_root subfolder file_ext ((shot_name, ver_label, node) # entries) st =
     (if isCancelled (step st)
      then st\<lparr>cancelled := True, events := events st @ [IsCancelled]\<rparr>
      else
        let vfx_dir = build_vfx_path shot_name tree_root subfolder;
            selected_filename = basename (file_value node)
        in (case find_version_zero fs shot_name vfx_dir file_ext of
              Inl e \<Rightarrow>
                st\<lparr>raised := Some e, events := events st @ [IsCancelled, FindVersionZero]\<rparr>
            | Inr v0 \<Rightarrow>
                (let st1 = st\<lparr>v0_results := v0_results st @ [v0],
                               step := step st + 1,
                               events := events st @ [IsCancelled, FindVersionZero]\<rparr>
                 in case find_latest_version fs shot_name vfx_dir file_ext
                           (Some selected_filename) of
                      Inl e \<Rightarrow>
                        st1\<lparr>raised := Some e, events := events st1 @ [FindLatestVersion]\<rparr>
                    | Inr latest \<Rightarrow>
                        (let st2 = st1\<lparr>latest_results := latest_results st1 @ [latest],
                                        step := step st1 + 1,
                                        events := events st1 @ [FindLatestVersion]\<rparr>
                         in resolve_loop fs isCancelled tree_root subfolder file_ext
                              entries st2))))"

text \<open>
  The main part of the script up to the point where the results are handed to the
  node layout: what it reports, or the entries with their two result lists.
\<close>

datatype outcome =
    ConfigNotFound
  | NothingSelected
  | NoShotNames
  | CancelledRun
  | Resolved "entry list" "pystr option list" "pystr option list"

definition find_versions ::
  "filesystem \<Rightarrow> (nat \<Rightarrow> bool) \<Rightarrow> config option \<Rightarrow> read_node list \<Rightarrow> py_error + outcome" where
  "find_versions fs isCancelled conf selected =
     (case conf of
        None \<Rightarrow> Inr ConfigNotFound
      | Some c \<Rightarrow>
          (let tree_root = shot_tree_root c;
               subfolder = config_get (version_subfolder c) (py ''_vfx'');
               file_ext = config_get (file_extension c) (py ''.mov'')
           in if selected = [] then Inr NothingSelected
              else (case parse_entries (shot_regex c) selected [] of
                      Inl e \<Rightarrow> Inl e
                    | Inr entries \<Rightarrow>
                        if entries = [] then Inr NoShotNames
                        else
                          (let st = resolve_loop fs isCancelled tree_root subfolder file_ext
                                      entries initial_state
                           in case raised st of
                                Some e \<Rightarrow> Inl e
                              | None \<Rightarrow>
                                  if cancelled st then Inr CancelledRun
                                  else Inr (Resolved entries (v0_results st)
                                              (latest_results st))))))"

section \<open>Example inputs\<close>

text \<open>
  A tree with one directory: \<open>os.stat\<close> finds the directory with the given entries and
  reports every other path as missing.
\<close>

definition tree_with :: "pure_path \<Rightarrow> pystr list \<Rightarrow> filesystem" where
  "tree_with d entries = (\<lambda>p. if p = d then Found (Dir entries) else Failed ENOENT)"

text \<open>
  The directories of the examples: the shot \<open>SEQ_1140a\<close> under the tree root \<open>/shots\<close>,
  once with three later versions and once with two version zeros.
\<close>

definition vfx_1140 :: pure_path where
  "vfx_1140 = build_vfx_path (py ''SEQ_1140a'') (py ''/shots'') (py ''_vfx'')"

definition latest_tree :: filesystem where
  "latest_tree =
     tree_with vfx_1140
       [py ''SEQ_1140a_comp_u0003_vfx.mov'',
        py ''SEQ_1140a_comp_w0012_vfx.mov'',
        py ''SEQ_1140a_comp_i0007_vfx.mov'']"

definition zero_tree :: filesystem where
  "zero_tree =
     tree_with vfx_1140
       [py ''SEQ_1140_comp_u0000_vfx.mov'',
        py ''SEQ_1140_comp_w0000_vfx.mov'']"

text \<open>
  A directory whose only version of \<open>SEQ_1140a\<close> is a version zero, one in which a
  vendor-only version zero is enumerated before one with a middle segment, and one
  whose only version zero is vendor-only.
\<close>

definition zero_only_tree :: filesystem where
  "zero_only_tree =
     tree_with vfx_1140 [py ''SEQ_1140a_comp_u0000_vfx.mov'', py ''notes.txt'']"

definition mixed_zero_tree :: filesystem where
  "mixed_zero_tree =
     tree_with vfx_1140
       [py ''SEQ_1140_u0000_vfx.mov'',
        py ''SEQ_1140_comp_w0000_vfx.mov'']"

definition vendor_zero_tree :: filesystem where
  "vendor_zero_tree =
     tree_with vfx_1140 [py ''notes.txt'', py ''SEQ_1140_u0000_vfx.mov'']"

text \<open>
  A directory in which one version is numbered with the Arabic-Indic digits for 99
  (code point 1641 twice) and one with the version zero beside it.
\<close>

definition name_u99 :: pystr where
  "name_u99 = py ''SEQ_1140a_comp_u'' @ [1641, 1641] @ py ''_vfx.mov''"

definition arabic_tree :: filesystem where
  "arabic_tree =
     tree_with vfx_1140
       [py ''SEQ_1140a_comp_w0012_vfx.mov'', name_u99, py ''SEQ_1140a_comp_u0000_vfx.mov'']"

text \<open>
  Trees without the directory: one in which every path is missing, one in which a
  directory on the way may not be searched (\<open>EACCES\<close>), and one in which every path is
  missing and a name of more than 255 characters is refused (\<open>ENAMETOOLONG\<close>).
\<close>

definition empty_tree :: filesystem where
  "empty_tree = (\<lambda>p. Failed ENOENT)"

definition locked_tree :: filesystem where
  "locked_tree = (\<lambda>p. Failed EACCES)"

definition name_max_tree :: filesystem where
  "name_max_tree =
     (\<lambda>p. if list_ex (\<lambda>n. 255 < length n) (names p) then Failed ENAMETOOLONG
          else Failed ENOENT)"

definition long_shot_name :: pystr where
  "long_shot_name = replicate 256 (ord (CHR ''A''))"

text \<open>
  A shot pattern of the kind the configuration holds, \<open>([A-Z]+_\d+[a-z]?)\<close>:
  \<open>seq_shot_head\<close> is the match of the pattern at the head of a text (the longest run
  of capitals, an underscore, the longest run of digits, a lowercase letter if one
  follows), and \<open>seq_shot_regex\<close> the compiled pattern.
\<close>

definition is_upper :: "int \<Rightarrow> bool" where
  "is_upper c = (ord (CHR ''A'') \<le> c \<and> c \<le> ord (CHR ''Z''))"

definition seq_shot_head :: "pystr \<Rightarrow> pystr option list option" where
  "seq_shot_head s =
     (let code = takeWhile is_upper s
      in case dropWhile is_upper s of
           [] \<Rightarrow> None
         | u # rest \<Rightarrow>
             if code \<noteq> [] \<and> u = ord (CHR ''_'') \<and> takeWhile is_digit rest \<noteq> [] then
               Some [Some (code @ [u] @ takeWhile is_digit rest @
                           (case dropWhile is_digit rest of
                              [] \<Rightarrow> []
                            | l # _ \<Rightarrow> if is_lower l then [l] else []))]
             else None)"

definition seq_shot_regex :: regex where
  "seq_shot_regex s pos = seq_shot_head (drop pos s)"

text \<open>The host's answers to \<open>isCancelled\<close>: never, or from the moment \<open>k\<close> lookups are complete.\<close>

definition never_cancelled :: "nat \<Rightarrow> bool" where
  "never_cancelled t = False"

definition cancelled_from :: "nat \<Rightarrow> nat \<Rightarrow> bool" where
  "cancelled_from k t = (k \<le> t)"

section \<open>Notions used to state the properties\<close>

text \<open>
  A file extension as the configuration gives it: a dot followed by a non-empty text
  without a further dot, such as \<open>.mov\<close>.
\<close>

definition dotted_ext :: "pystr \<Rightarrow> bool" where
  "dotted_ext ext =
     (case ext of
        [] \<Rightarrow> False
      | c # e \<Rightarrow> c = ord (CHR ''.'') \<and> e \<noteq> [] \<and> ord (CHR ''.'') \<notin> set e)"

text \<open>The strict version token of a directory entry and the number \<open>int\<close> reads from its digits.\<close>

definition version_token :: "pystr \<Rightarrow> (int \<times> pystr) option" where
  "version_token name = version_re_search (name_stem name)"

definition version_value :: "pystr \<Rightarrow> int" where
  "version_value name =
     (case version_token name of Some (l, ds) \<Rightarrow> int_of_digits ds | None \<Rightarrow> 0)"

text \<open>
  The entries that \<open>_find_latest_version\<close> ranks: they pass the glob pattern and the
  suffix filter, are not the excluded filename and carry the strict version token.
\<close>

definition candidate :: "pystr \<Rightarrow> pystr \<Rightarrow> pystr option \<Rightarrow> pystr \<Rightarrow> bool" where
  "candidate shot_name file_ext exclude_filename name =
     (fnmatch name (shot_name @ py ''_*_?*_vfx'' @ file_ext) \<and>
      name_suffix name = file_ext \<and>
      \<not> (exclude_filename = Some name \<and> name \<noteq> []) \<and>
      version_token name \<noteq> None)"

text \<open>The entries that \<open>_find_version_zero\<close> keeps for one of its patterns.\<close>

definition zero_match :: "pystr \<Rightarrow> pystr \<Rightarrow> pystr \<Rightarrow> bool" where
  "zero_match pat file_ext name = (fnmatch name pat \<and> name_suffix name = file_ext)"

text \<open>\<open>os.stat\<close> finds nothing at the path: the directory does not exist.\<close>

definition is_missing :: "filesystem \<Rightarrow> pure_path \<Rightarrow> bool" where
  "is_missing fs p = (case fs p of Found n \<Rightarrow> False | _ \<Rightarrow> True)"

text \<open>
  The sentence of the specification on cancellation, read on the recorded events:
  every lookup is directly preceded by a call of \<open>isCancelled\<close>. The first argument
  tells whether the event before the list was such a call.
\<close>

fun polled_before :: "bool \<Rightarrow> event list \<Rightarrow> bool" where
  "polled_before prev [] = True"
| "polled_before prev (e # es) =
     ((e = IsCancelled \<or> prev) \<and> polled_before (e = IsCancelled) es)"

definition polled_before_each_lookup :: "event list \<Rightarrow> bool" where
  "polled_before_each_lookup es = polled_before False es"

text \<open>
  The selected nodes that yield an entry, the entry of such a node, and the two
  lookups that the resolution loop performs for an entry.
\<close>

definition parseable :: "regex \<Rightarrow> read_node \<Rightarrow> bool" where
  "parseable rx node =
     (case extract_shot_name (basename (file_value node)) rx of
        Inr (Some s) \<Rightarrow> s \<noteq> []
      | _ \<Rightarrow> False)"

definition entry_of :: "regex \<Rightarrow> read_node \<Rightarrow> entry" where
  "entry_of rx node =
     (case extract_shot_name (basename (file_value node)) rx of
        Inr (Some s) \<Rightarrow> (s, extract_version_label (basename (file_value node)), node)
      | _ \<Rightarrow> ([], extract_version_label (basename (file_value node)), node))"

definition lookup_version_zero ::
  "filesystem \<Rightarrow> pystr \<Rightarrow> pystr \<Rightarrow> pystr \<Rightarrow> entry \<Rightarrow> py_error + pystr option" where
  "lookup_version_zero fs tree_root subfolder file_ext e =
     (case e of (shot_name, ver_label, node) \<Rightarrow>
        find_version_zero fs shot_name (build_vfx_path shot_name tree_root subfolder) file_ext)"

definition lookup_latest ::
  "filesystem \<Rightarrow> pystr \<Rightarrow> pystr \<Rightarrow> pystr \<Rightarrow> entry \<Rightarrow> py_error + pystr option" where
  "lookup_latest fs tree_root subfolder file_ext e =
     (case e of (shot_name, ver_label, node) \<Rightarrow>
        find_latest_version fs shot_name (build_vfx_path shot_name tree_root subfolder) file_ext
          (Some (basename (file_value node))))"

text \<open>\<open>Path.exists\<close> raises for the directory that is derived for an entry.\<close>

definition stat_raises :: "filesystem \<Rightarrow> pystr \<Rightarrow> pystr \<Rightarrow> entry \<Rightarrow> bool" where
  "stat_raises fs tree_root subfolder e =
     (case path_exists fs (build_vfx_path (fst e) tree_root subfolder) of
        Inl err \<Rightarrow> True
      | Inr ex \<Rightarrow> False)"

text \<open>One round of the resolution loop that is not cancelled, as recorded events.\<close>

definition round_events :: "event list" where
  "round_events = [IsCancelled, FindVersionZero, FindLatestVersion]"

text \<open>A configuration, a selection with one file that has no shot name, and its entries.\<close>

definition example_config :: config where
  "example_config =
     \<lparr>shot_regex = seq_shot_regex, shot_tree_root = py ''/shots'',
      version_subfolder = None, file_extension = None\<rparr>"

definition node_u0003 :: read_node where
  "node_u0003 =
     \<lparr>file_value = py ''/shots/SEQ/SEQ_1140/_vfx/SEQ_1140a_comp_u0003_vfx.mov'',
      xpos = 0, ypos = 0\<rparr>"

definition node_notes :: read_node where
  "node_notes = \<lparr>file_value = py ''/shots/notes.txt'', xpos = 110, ypos = 0\<rparr>"

definition example_entries :: "entry list" where
  "example_entries = [(py ''SEQ_1140a'', py ''u0003'', node_u0003)]"

section \<open>Properties of the name parser\<close>

lemma decimal_zeros_ascii: "\<forall>z \<in> set decimal_zeros. z = 48 \<or> 1632 \<le> z"
  by (simp add: decimal_zeros_def)

lemma is_digit_iff: "is_digit c = (\<exists>z \<in> set decimal_zeros. z \<le> c \<and> c < z + 10)"
proof -
  have "is_digit c = (filter (\<lambda>z. z \<le> c \<and> c < z + 10) decimal_zeros \<noteq> [])"
    by (simp add: is_digit_def decimal_def split: list.splits)
  then show ?thesis by (simp add: filter_empty_conv)
qed

lemma is_digit_ascii: "c < 1632 \<Longrightarrow> is_digit c = (48 \<le> c \<and> c \<le> 57)"
proof
  assume c: "c < 1632" and "is_digit c"
  then obtain z where z: "z \<in> set decimal_zeros" "z \<le> c" "c < z + 10"
    by (auto simp: is_digit_iff)
  with decimal_zeros_ascii c have "z = 48" by fastforce
  with z show "48 \<le> c \<and> c \<le> 57" by simp
next
  assume "48 \<le> c \<and> c \<le> 57"
  moreover have "48 \<in> set decimal_zeros" by (simp add: decimal_zeros_def)
  ultimately show "is_digit c" unfolding is_digit_iff by (intro bexI [of _ 48]) simp_all
qed

lemma digit_val_ascii: "48 \<le> c \<Longrightarrow> c \<le> 57 \<Longrightarrow> digit_val c = c - 48"
  by (simp add: digit_val_def decimal_def decimal_zeros_def)

lemma digit_not_lower: "is_digit c \<Longrightarrow> \<not> is_lower c"
proof
  assume d: "is_digit c" and l: "is_lower c"
  from l have "c < 1632" by (simp add: is_lower_def)
  from is_digit_ascii [OF this] d l show False by (simp add: is_lower_def)
qed

lemma underscore_not_digit: "\<not> is_digit (ord (CHR ''_''))"
  by (simp add: is_digit_ascii)

lemma lower_not_newline: "is_lower c \<Longrightarrow> c \<noteq> newline"
  by (auto simp: is_lower_def newline_def)

lemma splitext_append: "fst (splitext p) @ snd (splitext p) = p"
  by (simp add: splitext_def Let_def split: option.splits)

lemma shot_base_keeps:
  assumes "\<not> is_lower d" and "d \<noteq> newline"
  shows "shot_base (p @ [d]) = p @ [d]"
  using assms by (induction p) (auto simp: at_dollar_def)

lemma shot_base_strips:
  assumes "\<not> is_lower d" and "d \<noteq> newline" and "is_lower l"
  shows "shot_base (p @ [d, l]) = p @ [d]"
  using assms by (induction p) (auto simp: at_dollar_def lower_not_newline)

text \<open>
  C4. A shot identity is a sequence code, a shot number and at most one trailing
  disambiguation letter: it ends in a character that is not a lowercase letter (and
  not a newline), the last digit of the shot number, optionally followed by a single
  lowercase letter. On every such identity \<open>shot_base\<close> removes that letter if it is
  there, and applying it twice gives the same result as applying it once.
\<close>

theorem shot_base_idempotent_on_identities:
  assumes "\<not> is_lower d" and "d \<noteq> newline"
    and "sfx = [] \<or> (\<exists>l. is_lower l \<and> sfx = [l])"
  shows "shot_base (p @ [d] @ sfx) = p @ [d] \<and>
         shot_base (shot_base (p @ [d] @ sfx)) = shot_base (p @ [d] @ sfx)"
proof -
  have keep: "shot_base (p @ [d]) = p @ [d]"
    using assms(1,2) by (rule shot_base_keeps)
  from assms(3) have "shot_base (p @ [d] @ sfx) = p @ [d]"
  proof
    assume "sfx = []"
    with keep show ?thesis by simp
  next
    assume "\<exists>l. is_lower l \<and> sfx = [l]"
    then obtain l where "is_lower l" and "sfx = [l]" by blast
    with shot_base_strips [OF assms(1,2), of l p] show ?thesis by simp
  qed
  with keep show ?thesis by simp
qed

theorem shot_base_idempotent_on_identities_witness:
  "shot_base (py ''SEQ_1140a'') = py ''SEQ_1140'' \<and>
   shot_base (shot_base (py ''SEQ_1140a'')) = shot_base (py ''SEQ_1140a'') \<and>
   shot_base (py ''SEQ_1140'') = py ''SEQ_1140'' \<and>
   shot_base (shot_base (py ''SEQ_1140'')) = shot_base (py ''SEQ_1140'')"
proof -
  have d: "\<not> is_lower (ord (CHR ''0''))" "ord (CHR ''0'') \<noteq> newline"
    by (simp_all add: is_lower_def newline_def)
  have a: "[] = [] \<or> (\<exists>l. is_lower l \<and> ([]::pystr) = [l])" by simp
  have b: "py ''a'' = [] \<or> (\<exists>l. is_lower l \<and> py ''a'' = [l])"
    by (simp add: py_def is_lower_def)
  from shot_base_idempotent_on_identities [OF d b, of "py ''SEQ_114''"]
    shot_base_idempotent_on_identities [OF d a, of "py ''SEQ_114''"]
  show ?thesis by (simp add: py_def)
qed

lemma rfind_None: "(rfind c xs = None) = (c \<notin> set xs)"
  by (induction xs) (auto split: option.splits)

lemma rfind_append:
  "rfind c (xs @ ys) =
     (case rfind c ys of Some i \<Rightarrow> Some (length xs + i) | None \<Rightarrow> rfind c xs)"
  by (induction xs) (auto split: option.splits)

lemma rfind_dotted: "dotted_ext ext \<Longrightarrow> rfind (ord (CHR ''.'')) (x @ ext) = Some (length x)"
  by (cases ext) (auto simp: dotted_ext_def rfind_append rfind_None split: option.splits)

lemma splitext_dotted:
  assumes "dotted_ext ext" and "ord (CHR ''/'') \<notin> set (base @ ext)"
    and "\<exists>c \<in> set base. c \<noteq> ord (CHR ''.'')"
  shows "splitext (base @ ext) = (base, ext)"
proof -
  have sep: "rfind (ord (CHR ''/'')) (base @ ext) = None"
    using assms(2) by (simp only: rfind_None not_False_eq_True)
  have dot: "rfind (ord (CHR ''.'')) (base @ ext) = Some (length base)"
    using assms(1) by (rule rfind_dotted)
  have "list_ex (\<lambda>c. c \<noteq> ord (CHR ''.'')) base"
    using assms(3) by (simp add: list_ex_iff)
  then show ?thesis
    unfolding splitext_def sep dot by (simp add: Let_def)
qed

lemma splitext_no_dot: "ord (CHR ''.'') \<notin> set p \<Longrightarrow> splitext p = (p, [])"
proof -
  assume "ord (CHR ''.'') \<notin> set p"
  then have "rfind (ord (CHR ''.'')) p = None" by (simp only: rfind_None not_False_eq_True)
  then show ?thesis unfolding splitext_def by (simp add: Let_def)
qed

lemma extract_shot_name_no_raise:
  assumes "\<forall>s pos gs. rx s pos = Some gs \<longrightarrow> length gs = 1"
  shows "\<exists>r. extract_shot_name filename rx = Inr r"
proof (cases "rx (fst (splitext filename)) 0")
  case None
  then show ?thesis by (simp add: extract_shot_name_def re_match_def)
next
  case (Some gs)
  with assms have "length gs = 1" by blast
  then obtain g where "gs = [g]" by (cases gs) auto
  with Some show ?thesis by (simp add: extract_shot_name_def re_match_def group1_def)
qed

text \<open>
  C5. For a shot pattern with exactly one capture group, \<open>extract_shot_name\<close> never
  raises. It tries the pattern on the stem with the match starting at the first
  character of the stem, whatever the pattern would match further to the right and
  whether or not the match reaches the end of the stem: it returns the value of the
  capture group of that match, and \<open>None\<close> when there is no match at that position.
  The stem is the filename without its extension: for a filename \<open>base @ ext\<close> with an
  extension such as \<open>.mov\<close> it is \<open>base\<close>, and a filename without a dot is its own stem.
\<close>

theorem extract_shot_name_first_group:
  assumes "\<forall>s pos gs. rx s pos = Some gs \<longrightarrow> length gs = 1"
  shows "(\<exists>r. extract_shot_name filename rx = Inr r) \<and>
         (\<forall>g. rx (fst (splitext filename)) 0 = Some [g] \<longrightarrow>
                extract_shot_name filename rx = Inr g) \<and>
         (rx (fst (splitext filename)) 0 = None \<longrightarrow>
            extract_shot_name filename rx = Inr None) \<and>
         (dotted_ext ext \<and> ord (CHR ''/'') \<notin> set (base @ ext) \<and>
          (\<exists>c \<in> set base. c \<noteq> ord (CHR ''.'')) \<longrightarrow>
            fst (splitext (base @ ext)) = base \<and>
            (\<forall>g. rx base 0 = Some [g] \<longrightarrow> extract_shot_name (base @ ext) rx = Inr g) \<and>
            (rx base 0 = None \<longrightarrow> extract_shot_name (base @ ext) rx = Inr None)) \<and>
         (ord (CHR ''.'') \<notin> set filename \<longrightarrow> fst (splitext filename) = filename)"
proof -
  have a: "\<exists>r. extract_shot_name filename rx = Inr r"
    using assms by (rule extract_shot_name_no_raise)
  have b: "\<forall>g. rx (fst (splitext f)) 0 = Some [g] \<longrightarrow> extract_shot_name f rx = Inr g" for f
    by (simp add: extract_shot_name_def re_match_def group1_def)
  have c: "rx (fst (splitext f)) 0 = None \<longrightarrow> extract_shot_name f rx = Inr None" for f
    by (simp add: extract_shot_name_def re_match_def)
  have d: "fst (splitext (base @ ext)) = base \<and>
            (\<forall>g. rx base 0 = Some [g] \<longrightarrow> extract_shot_name (base @ ext) rx = Inr g) \<and>
            (rx base 0 = None \<longrightarrow> extract_shot_name (base @ ext) rx = Inr None)"
    if h: "dotted_ext ext \<and> ord (CHR ''/'') \<notin> set (base @ ext) \<and>
          (\<exists>c \<in> set base. c \<noteq> ord (CHR ''.''))"
  proof -
    from h have "splitext (base @ ext) = (base, ext)" by (intro splitext_dotted) simp_all
    then have st: "fst (splitext (base @ ext)) = base" by simp
    from b [of "base @ ext"] c [of "base @ ext"] st show ?thesis by simp
  qed
  have e: "ord (CHR ''.'') \<notin> set filename \<longrightarrow> fst (splitext filename) = filename"
    by (simp add: splitext_no_dot)
  from a b [of filename] c [of filename] d e show ?thesis by blast
qed

lemma seq_shot_regex_one_group: "seq_shot_regex s pos = Some gs \<Longrightarrow> length gs = 1"
  by (auto simp: seq_shot_regex_def seq_shot_head_def Let_def split: list.splits if_splits)

theorem extract_shot_name_first_group_witness:
  "extract_shot_name (py ''SEQ_1140a_comp_w0012_vfx'' @ py ''.mov'') seq_shot_regex =
     Inr (Some (py ''SEQ_1140a'')) \<and>
   fst (splitext (py ''SEQ_1140a_comp_w0012_vfx'' @ py ''.mov'')) = py ''SEQ_1140a_comp_w0012_vfx'' \<and>
   seq_shot_regex (py ''x_SEQ_1140a_comp_w0012_vfx'') 2 = Some [Some (py ''SEQ_1140a'')] \<and>
   extract_shot_name (py ''x_SEQ_1140a_comp_w0012_vfx'' @ py ''.mov'') seq_shot_regex = Inr None \<and>
   fst (splitext (py ''notes'')) = py ''notes'' \<and>
   extract_shot_name (py ''notes'') seq_shot_regex = Inr None"
proof -
  have one: "\<forall>s pos gs. seq_shot_regex s pos = Some gs \<longrightarrow> length gs = 1"
    using seq_shot_regex_one_group by blast
  note hi = extract_shot_name_first_group [OF one]
  have ext: "dotted_ext (py ''.mov'')"
    by (simp add: py_def dotted_ext_def)
  have h1: "dotted_ext (py ''.mov'') \<and>
            ord (CHR ''/'') \<notin> set (py ''SEQ_1140a_comp_w0012_vfx'' @ py ''.mov'') \<and>
            (\<exists>c \<in> set (py ''SEQ_1140a_comp_w0012_vfx''). c \<noteq> ord (CHR ''.''))"
    by code_simp
  have h2: "dotted_ext (py ''.mov'') \<and>
            ord (CHR ''/'') \<notin> set (py ''x_SEQ_1140a_comp_w0012_vfx'' @ py ''.mov'') \<and>
            (\<exists>c \<in> set (py ''x_SEQ_1140a_comp_w0012_vfx''). c \<noteq> ord (CHR ''.''))"
    by code_simp
  have m1: "seq_shot_regex (py ''SEQ_1140a_comp_w0012_vfx'') 0 = Some [Some (py ''SEQ_1140a'')]"
    by code_simp
  have m2: "seq_shot_regex (py ''x_SEQ_1140a_comp_w0012_vfx'') 0 = None"
    by code_simp
  have m3: "seq_shot_regex (py ''x_SEQ_1140a_comp_w0012_vfx'') 2 = Some [Some (py ''SEQ_1140a'')]"
    by code_simp
  have nd: "ord (CHR ''.'') \<notin> set (py ''notes'')"
    by code_simp
  have m4: "seq_shot_regex (py ''notes'') 0 = None"
    by code_simp
  note a = hi [of "py ''notes''" "py ''.mov''" "py ''SEQ_1140a_comp_w0012_vfx''",
      THEN conjunct2, THEN conjunct2, THEN conjunct2, THEN conjunct1, THEN mp, OF h1]
  note b = hi [of "py ''notes''" "py ''.mov''" "py ''x_SEQ_1140a_comp_w0012_vfx''",
      THEN conjunct2, THEN conjunct2, THEN conjunct2, THEN conjunct1, THEN mp, OF h2]
  note c = hi [of "py ''notes''" "py ''.mov''" "py ''SEQ_1140a_comp_w0012_vfx''",
      THEN conjunct2, THEN conjunct2, THEN conjunct2, THEN conjunct2, THEN mp, OF nd]
  have r1: "extract_shot_name (py ''SEQ_1140a_comp_w0012_vfx'' @ py ''.mov'') seq_shot_regex =
     Inr (Some (py ''SEQ_1140a''))"
    using a [THEN conjunct2, THEN conjunct1, rule_format, OF m1] .
  have r2: "extract_shot_name (py ''x_SEQ_1140a_comp_w0012_vfx'' @ py ''.mov'') seq_shot_regex =
     Inr None"
    using b [THEN conjunct2, THEN conjunct2, THEN mp, OF m2] .
  have m4': "seq_shot_regex (fst (splitext (py ''notes''))) 0 = None"
    unfolding c by (rule m4)
  have r3: "extract_shot_name (py ''notes'') seq_shot_regex = Inr None"
    using hi [of "py ''notes''" "py ''.mov''" "py ''notes''",
      THEN conjunct2, THEN conjunct2, THEN conjunct1, THEN mp, OF m4'] .
  from r1 a [THEN conjunct1] m3 r2 c r3 show ?thesis by (intro conjI)
qed

section \<open>Properties of the path deriver\<close>

lemma vfx_1140_str: "path_str vfx_1140 = py ''/shots/SEQ/SEQ_1140/_vfx''"
  by code_simp

section \<open>Properties of the version resolver\<close>

lemma find_version_zero_missing:
  "path_exists fs d = Inr False \<Longrightarrow> find_version_zero fs shot d ext = Inr None"
  by (simp add: find_version_zero_def)

lemma find_latest_version_missing:
  "path_exists fs d = Inr False \<Longrightarrow> find_latest_version fs shot d ext excl = Inr None"
  by (simp add: find_latest_version_def)

lemma find_version_zero_raises:
  "path_exists fs d = Inl e \<Longrightarrow> find_version_zero fs shot d ext = Inl e"
  by (simp add: find_version_zero_def)

lemma find_latest_version_raises:
  "path_exists fs d = Inl e \<Longrightarrow> find_latest_version fs shot d ext excl = Inl e"
  by (simp add: find_latest_version_def)

text \<open>
  C6 (as amended). When \<open>os.stat\<close> reports the directory as missing (\<open>ENOENT\<close>,
  \<open>ENOTDIR\<close>, \<open>EBADF\<close>, \<open>ELOOP\<close>, or a path that cannot be passed to the system),
  both lookups return \<open>None\<close> without raising, whatever the shot identity, the
  extension and the excluded filename are. When \<open>os.stat\<close> fails with any other
  error, \<open>Path.exists\<close> raises it again and so do both lookups.
\<close>

theorem missing_directory_absent:
  "((fs vfx_dir = Unencodable \<or> (\<exists>e. fs vfx_dir = Failed e \<and> ignore_error e)) \<longrightarrow>
      find_version_zero fs shot_name vfx_dir file_ext = Inr None \<and>
      find_latest_version fs shot_name vfx_dir file_ext exclude_filename = Inr None) \<and>
   (fs vfx_dir = Failed e \<and> \<not> ignore_error e \<longrightarrow>
      find_version_zero fs shot_name vfx_dir file_ext = Inl (OSError e) \<and>
      find_latest_version fs shot_name vfx_dir file_ext exclude_filename = Inl (OSError e))"
proof (intro conjI impI)
  assume "fs vfx_dir = Unencodable \<or> (\<exists>e. fs vfx_dir = Failed e \<and> ignore_error e)"
  then have f: "path_exists fs vfx_dir = Inr False"
    by (auto simp: path_exists_def)
  from f show "find_version_zero fs shot_name vfx_dir file_ext = Inr None"
    by (rule find_version_zero_missing)
  from f show "find_latest_version fs shot_name vfx_dir file_ext exclude_filename = Inr None"
    by (rule find_latest_version_missing)
next
  assume "fs vfx_dir = Failed e \<and> \<not> ignore_error e"
  then have r: "path_exists fs vfx_dir = Inl (OSError e)"
    by (simp add: path_exists_def)
  from r show "find_version_zero fs shot_name vfx_dir file_ext = Inl (OSError e)"
    by (rule find_version_zero_raises)
  from r show "find_latest_version fs shot_name vfx_dir file_ext exclude_filename = Inl (OSError e)"
    by (rule find_latest_version_raises)
qed

theorem missing_directory_absent_witness:
  "find_version_zero empty_tree (py ''SEQ_1140a'') vfx_1140 (py ''.mov'') = Inr None \<and>
   find_latest_version empty_tree (py ''SEQ_1140a'') vfx_1140 (py ''.mov'')
     (Some (py ''SEQ_1140a_comp_w0012_vfx.mov'')) = Inr None \<and>
   find_version_zero locked_tree (py ''SEQ_1140a'') vfx_1140 (py ''.mov'') =
     Inl (OSError EACCES) \<and>
   find_latest_version locked_tree (py ''SEQ_1140a'') vfx_1140 (py ''.mov'')
     (Some (py ''SEQ_1140a_comp_w0012_vfx.mov'')) = Inl (OSError EACCES)"
proof -
  have h: "empty_tree vfx_1140 = Unencodable \<or>
           (\<exists>e. empty_tree vfx_1140 = Failed e \<and> ignore_error e)"
    by (simp add: empty_tree_def ignore_error_def)
  have g: "locked_tree vfx_1140 = Failed EACCES \<and> \<not> ignore_error EACCES"
    by (simp add: locked_tree_def ignore_error_def)
  note a = missing_directory_absent [where fs = empty_tree and vfx_dir = vfx_1140
      and shot_name = "py ''SEQ_1140a''" and file_ext = "py ''.mov''"
      and exclude_filename = "Some (py ''SEQ_1140a_comp_w0012_vfx.mov'')" and e = EACCES,
      THEN conjunct1, THEN mp, OF h]
  note b = missing_directory_absent [where fs = locked_tree and vfx_dir = vfx_1140
      and shot_name = "py ''SEQ_1140a''" and file_ext = "py ''.mov''"
      and exclude_filename = "Some (py ''SEQ_1140a_comp_w0012_vfx.mov'')" and e = EACCES,
      THEN conjunct2, THEN mp, OF g]
  from a b show ?thesis by (intro conjI) (erule conjunct1 conjunct2)+
qed

text \<open>
  C6 (as stated) fails: for a shot identity of 256 characters the derived directory
  does not exist, \<open>os.stat\<close> refuses its name with \<open>ENAMETOOLONG\<close>, and both lookups
  raise; the same happens for an ordinary identity below a directory that may not be
  searched.
\<close>

theorem missing_directory_raises:
  "is_missing name_max_tree (build_vfx_path long_shot_name (py ''/shots'') (py ''_vfx'')) \<and>
   find_version_zero name_max_tree long_shot_name
     (build_vfx_path long_shot_name (py ''/shots'') (py ''_vfx'')) (py ''.mov'') =
     Inl (OSError ENAMETOOLONG) \<and>
   find_latest_version name_max_tree long_shot_name
     (build_vfx_path long_shot_name (py ''/shots'') (py ''_vfx'')) (py ''.mov'') None =
     Inl (OSError ENAMETOOLONG) \<and>
   is_missing locked_tree vfx_1140 \<and>
   find_version_zero locked_tree (py ''SEQ_1140a'') vfx_1140 (py ''.mov'') =
     Inl (OSError EACCES) \<and>
   find_latest_version locked_tree (py ''SEQ_1140a'') vfx_1140 (py ''.mov'') None =
     Inl (OSError EACCES)"
  by code_simp

lemma path_name_child: "path_name (make_child_relpath d n) = n"
  by (simp add: path_name_def make_child_relpath_def)

lemma path_suffix_child: "path_suffix (make_child_relpath d n) = name_suffix n"
  by (simp add: path_suffix_def path_name_child)

lemma path_stem_child: "path_stem (make_child_relpath d n) = name_stem n"
  by (simp add: path_stem_def path_name_child)

lemma join_sep_snoc:
  "join_sep (xs @ [n]) = (if xs = [] then n else join_sep xs @ py ''/'' @ n)"
  by (induction xs rule: join_sep.induct) auto

lemma path_str_child:
  "path_str (make_child_relpath d n) =
     anchor d @ (if names d = [] then n else join_sep (names d) @ py ''/'' @ n)"
  by (simp add: path_str_def make_child_relpath_def join_sep_snoc)

lemma path_str_child_inject:
  "path_str (make_child_relpath d n) = path_str (make_child_relpath d n') \<longleftrightarrow> n = n'"
  by (auto simp: path_str_child)

lemma glob_dir:
  "fs d = Found (Dir entries) \<Longrightarrow>
   glob fs d pat =
     Inr (map (make_child_relpath d) (filter (\<lambda>name. fnmatch name pat) entries))"
  by (simp add: glob_def is_dir_def)

lemma filter_suffix_children:
  "filter (\<lambda>f. path_suffix f = ext)
     (map (make_child_relpath d) (filter (\<lambda>name. fnmatch name pat) entries)) =
   map (make_child_relpath d) (filter (zero_match pat ext) entries)"
  by (induction entries) (auto simp: zero_match_def path_suffix_child)

lemma collect_versions_map:
  "collect_versions excl (map (make_child_relpath d) ns) =
   map (\<lambda>n. (version_value n, path_str (make_child_relpath d n)))
     (filter (\<lambda>n. \<not> (excl = Some n \<and> n \<noteq> []) \<and> version_token n \<noteq> None) ns)"
  by (induction ns)
     (auto simp: excluded_def path_name_child path_stem_child version_value_def
        version_token_def split: option.splits)

lemma sort_reverse_Nil: "sort_reverse vs = [] \<longleftrightarrow> vs = []"
  by (metis length_0_conv length_rev length_sort sort_reverse_def)

lemma sorted_le_last: "sorted xs \<Longrightarrow> x \<in> set xs \<Longrightarrow> x \<le> last xs"
  by (induction xs) auto

lemma last_filter_same: "xs \<noteq> [] \<Longrightarrow> P (last xs) \<Longrightarrow> last (filter P xs) = last xs"
  by (induction xs rule: rev_induct) auto

lemma sort_reverse_hd:
  assumes "vs \<noteq> []"
  shows "\<exists>v rest. sort_reverse vs = v # rest \<and> v \<in> set vs \<and> (\<forall>w \<in> set vs. fst w \<le> fst v) \<and>
           v = hd (filter (\<lambda>w. fst w = fst v) vs)"
proof -
  let ?s = "sort_key fst (rev vs)"
  have ne: "?s \<noteq> []" using assms by (metis length_0_conv length_rev length_sort)
  let ?v = "last ?s"
  have srt: "sorted (map fst ?s)" by simp
  have mem: "?v \<in> set vs" using last_in_set [OF ne] by simp
  have le: "\<forall>w \<in> set vs. fst w \<le> fst ?v"
  proof
    fix w assume "w \<in> set vs"
    then have "fst w \<in> set (map fst ?s)" by simp
    moreover have "last (map fst ?s) = fst ?v" using ne by (simp add: last_map)
    ultimately show "fst w \<le> fst ?v" using srt sorted_le_last by metis
  qed
  have "filter (\<lambda>w. fst w = fst ?v) ?s = filter (\<lambda>w. fst w = fst ?v) (rev vs)"
    by (rule sort_key_stable)
  moreover have "last (filter (\<lambda>w. fst w = fst ?v) ?s) = ?v"
    using ne by (simp add: last_filter_same)
  ultimately have "?v = last (rev (filter (\<lambda>w. fst w = fst ?v) vs))"
    by (simp add: rev_filter)
  then have first: "?v = hd (filter (\<lambda>w. fst w = fst ?v) vs)" by (simp add: last_rev)
  have "sort_reverse vs = ?v # rev (butlast ?s)"
    using ne by (metis append_butlast_last_id rev.simps(2) rev_append rev_rev_ident sort_reverse_def append_Cons append_Nil rev_singleton_conv)
  with mem le first show ?thesis by blast
qed

lemma find_latest_version_dir:
  assumes "fs d = Found (Dir entries)"
  shows "find_latest_version fs shot d ext excl =
     (case sort_reverse (map (\<lambda>n. (version_value n, path_str (make_child_relpath d n)))
                          (filter (candidate shot ext excl) entries)) of
        [] \<Rightarrow> Inr None
      | v # _ \<Rightarrow> Inr (Some (snd v)))"
proof -
  define pat where "pat = shot @ py ''_*_?*_vfx'' @ ext"
  let ?g = "\<lambda>n. (version_value n, path_str (make_child_relpath d n))"
  let ?keep = "\<lambda>n. \<not> (excl = Some n \<and> n \<noteq> []) \<and> version_token n \<noteq> None"
  let ?mf = "map (make_child_relpath d) (filter (zero_match pat ext) entries)"
  have ex: "path_exists fs d = Inr True" using assms by (simp add: path_exists_def)
  have gl: "glob fs d pat =
            Inr (map (make_child_relpath d) (filter (\<lambda>name. fnmatch name pat) entries))"
    using assms by (rule glob_dir)
  have ml: "matching_loop fs d ext [pat] [] = Inr ?mf"
    by (simp add: gl filter_suffix_children)
  have flv: "find_latest_version fs shot d ext excl =
             (if ?mf = [] then Inr None
              else case sort_reverse (collect_versions excl ?mf) of
                     [] \<Rightarrow> Inr None | v # _ \<Rightarrow> Inr (Some (snd v)))"
    unfolding find_latest_version_def Let_def pat_def [symmetric] ex ml by simp
  have cand: "filter ?keep (filter (zero_match pat ext) entries) =
              filter (candidate shot ext excl) entries"
    by (auto simp: candidate_def zero_match_def pat_def intro: filter_cong)
  have cv: "collect_versions excl ?mf = map ?g (filter (candidate shot ext excl) entries)"
    by (simp only: collect_versions_map cand)
  show ?thesis
  proof (cases "?mf = []")
    case True
    then have "collect_versions excl ?mf = []" by simp
    then have "filter (candidate shot ext excl) entries = []" using cv by simp
    with True flv show ?thesis by (simp add: sort_reverse_def)
  next
    case False
    with flv cv show ?thesis by simp
  qed
qed

lemma find_latest_version_None:
  assumes "fs d = Found (Dir entries)"
  shows "(find_latest_version fs shot d ext excl = Inr None) =
         (\<forall>n \<in> set entries. \<not> candidate shot ext excl n)"
proof -
  let ?g = "\<lambda>n. (version_value n, path_str (make_child_relpath d n))"
  let ?vs = "map ?g (filter (candidate shot ext excl) entries)"
  have "(find_latest_version fs shot d ext excl = Inr None) = (sort_reverse ?vs = [])"
    by (simp add: find_latest_version_dir [of fs d entries, OF assms] split: list.splits)
  also have "\<dots> = (filter (candidate shot ext excl) entries = [])"
    by (simp add: sort_reverse_Nil)
  also have "\<dots> = (\<forall>n \<in> set entries. \<not> candidate shot ext excl n)"
    by (simp add: filter_empty_conv)
  finally show ?thesis .
qed

lemma find_latest_version_no_raise:
  assumes "fs d = Found n"
  shows "\<exists>r. find_latest_version fs shot d ext excl = Inr r"
proof (cases n)
  case File
  with assms show ?thesis
    by (simp add: find_latest_version_def path_exists_def glob_def is_dir_def)
next
  case (Dir entries)
  with assms have "fs d = Found (Dir entries)" by simp
  from find_latest_version_dir [of fs d entries, OF this] show ?thesis
    by (simp split: list.splits)
qed

lemma find_latest_version_Some:
  assumes "fs d = Found (Dir entries)"
    and "find_latest_version fs shot d ext excl = Inr (Some p)"
  shows "\<exists>n \<in> set entries. candidate shot ext excl n \<and>
           p = path_str (make_child_relpath d n) \<and>
           (\<forall>n' \<in> set entries. candidate shot ext excl n' \<longrightarrow> version_value n' \<le> version_value n) \<and>
           n = hd (filter (\<lambda>m. candidate shot ext excl m \<and> version_value m = version_value n) entries)"
proof -
  let ?g = "\<lambda>n. (version_value n, path_str (make_child_relpath d n))"
  let ?cs = "filter (candidate shot ext excl) entries"
  let ?vs = "map ?g ?cs"
  from assms have ne: "?vs \<noteq> []"
    by (auto simp: find_latest_version_dir [of fs d entries, OF assms(1)] sort_reverse_def)
  from sort_reverse_hd [OF ne] obtain v rest where
    sr: "sort_reverse ?vs = v # rest" and
    mx: "\<forall>w \<in> set ?vs. fst w \<le> fst v" and
    fi: "v = hd (filter (\<lambda>w. fst w = fst v) ?vs)" and
    vin: "v \<in> set ?vs"
    by blast
  from assms sr have p: "p = snd v"
    by (simp add: find_latest_version_dir [of fs d entries, OF assms(1)])
  let ?ms = "filter (\<lambda>m. version_value m = fst v) ?cs"
  have fm: "filter (\<lambda>w. fst w = fst v) ?vs = map ?g ?ms"
    by (simp add: filter_map comp_def)
  have "v \<in> set (filter (\<lambda>w. fst w = fst v) ?vs)" using vin by simp
  then have msne: "?ms \<noteq> []" unfolding fm by (metis empty_iff list.map_disc_iff set_empty)
  define n where "n = hd ?ms"
  have v: "v = ?g n" using fi msne unfolding fm n_def by (simp add: hd_map)
  have nin: "n \<in> set ?ms" unfolding n_def using msne by (rule hd_in_set)
  then have c: "candidate shot ext excl n" and e: "n \<in> set entries" by auto
  have val: "fst v = version_value n" using v by simp
  have "\<forall>n' \<in> set entries. candidate shot ext excl n' \<longrightarrow> version_value n' \<le> version_value n"
  proof (intro ballI impI)
    fix n' assume "n' \<in> set entries" "candidate shot ext excl n'"
    then have "?g n' \<in> set ?vs" by simp
    with mx have "fst (?g n') \<le> fst v" by blast
    then show "version_value n' \<le> version_value n" using val by simp
  qed
  moreover have "n = hd (filter (\<lambda>m. candidate shot ext excl m \<and> version_value m = version_value n) entries)"
    unfolding n_def [symmetric] val [symmetric]
    by (simp add: n_def conj_commute)
  moreover have "p = path_str (make_child_relpath d n)" using p v by simp
  ultimately show ?thesis using c e by blast
qed

lemma fnmatch_skip_star: "fnmatch n p \<Longrightarrow> fnmatch n (ord (CHR ''*'') # p)"
  by (cases n) auto

lemma fnmatch_star: "fnmatch n p \<Longrightarrow> fnmatch (m @ n) (ord (CHR ''*'') # p)"
proof (induction m)
  case Nil
  then show ?case by (simp only: append_Nil fnmatch_skip_star)
next
  case (Cons c m)
  then have "fnmatch (m @ n) (ord (CHR ''*'') # p)" by simp
  then show ?case by simp
qed

lemma fnmatch_literal: "glob_literal e \<Longrightarrow> fnmatch n e = (n = e)"
proof (induction n e rule: fnmatch.induct)
  case (4 c cs p ps)
  then show ?case by (auto simp: glob_literal_def py_def)
qed (auto simp: glob_literal_def py_def)

lemma fnmatch_literal_prefix:
  "glob_literal s \<Longrightarrow> fnmatch n (s @ p) = (\<exists>x. n = s @ x \<and> fnmatch x p)"
proof (induction s arbitrary: n)
  case Nil
  then show ?case by simp
next
  case (Cons c s)
  then have c: "c \<noteq> ord (CHR ''*'')" "c \<noteq> ord (CHR ''?'')" and s: "glob_literal s"
    by (auto simp: glob_literal_def py_def)
  show ?case
  proof (cases n)
    case Nil
    with c show ?thesis by simp
  next
    case (Cons a m)
    with c Cons.IH [OF s, of m] show ?thesis by auto
  qed
qed

lemma fnmatch_same_prefix: "glob_literal s \<Longrightarrow> fnmatch n p \<Longrightarrow> fnmatch (s @ n) (s @ p)"
  by (simp add: fnmatch_literal_prefix)

lemma fnmatch_question: "fnmatch n p \<Longrightarrow> fnmatch (c # n) (ord (CHR ''?'') # p)"
  by simp

lemma fnmatch_Nil_stars: "fnmatch [] p \<Longrightarrow> set p \<subseteq> {ord (CHR ''*'')}"
  by (induction p) auto

lemma fnmatch_literal_suffix:
  "glob_literal e \<Longrightarrow> fnmatch n (p @ e) \<Longrightarrow> \<exists>x. n = x @ e \<and> fnmatch x p"
proof (induction n p rule: fnmatch.induct)
  case 1
  then show ?case by (simp add: fnmatch_literal)
next
  case (2 c cs)
  then show ?case by (simp add: fnmatch_literal)
next
  case (3 q ps)
  then show ?case by auto
next
  case (4 c cs q ps)
  show ?case
  proof (cases "q = ord (CHR ''*'')")
    case True
    with 4 show ?thesis
      by (auto simp: fnmatch_skip_star [simplified])
  next
    case False
    with 4 show ?thesis
      by (auto split: if_splits)
  qed
qed

lemma dotted_ext_length: "dotted_ext ext \<Longrightarrow> 1 < length ext"
  by (cases ext) (auto simp: dotted_ext_def)

lemma name_suffix_dotted:
  assumes "dotted_ext ext" and "x \<noteq> []"
  shows "name_suffix (x @ ext) = ext"
proof -
  have r: "rfind (ord (CHR ''.'')) (x @ ext) = Some (length x)"
    using assms(1) by (rule rfind_dotted)
  show ?thesis
    unfolding name_suffix_def r using assms(2) dotted_ext_length [OF assms(1)] by simp
qed

lemma name_stem_dotted:
  assumes "dotted_ext ext" and "x \<noteq> []"
  shows "name_stem (x @ ext) = x"
proof -
  have r: "rfind (ord (CHR ''.'')) (x @ ext) = Some (length x)"
    using assms(1) by (rule rfind_dotted)
  show ?thesis
    unfolding name_stem_def r using assms(2) dotted_ext_length [OF assms(1)] by simp
qed

lemma version_re_match_sound:
  assumes "version_re_match s = Some (l, ds)"
  shows "\<exists>t. s = ord (CHR ''_'') # l # ds @ py ''_vfx'' @ t \<and> at_dollar t \<and> is_lower l \<and>
             ds \<noteq> [] \<and> (\<forall>c \<in> set ds. is_digit c)"
proof -
  from assms obtain u rest where s: "s = u # l # rest"
    and c: "u = ord (CHR ''_'')" "is_lower l" "takeWhile is_digit rest \<noteq> []"
       "take 4 (dropWhile is_digit rest) = py ''_vfx''"
       "at_dollar (drop 4 (dropWhile is_digit rest))"
    and ds: "ds = takeWhile is_digit rest"
    by (auto simp: version_re_match_def split: list.splits if_splits)
  have "rest = takeWhile is_digit rest @ take 4 (dropWhile is_digit rest) @
                 drop 4 (dropWhile is_digit rest)"
    by simp
  then have "rest = ds @ py ''_vfx'' @ drop 4 (dropWhile is_digit rest)"
    using c(4) ds by simp
  with s c ds show ?thesis
    by (metis set_takeWhileD)
qed

lemma version_re_search_sound:
  "version_re_search s = Some (l, ds) \<Longrightarrow>
   \<exists>a t. s = a @ ord (CHR ''_'') # l # ds @ py ''_vfx'' @ t \<and> at_dollar t \<and> is_lower l \<and>
          ds \<noteq> [] \<and> (\<forall>c \<in> set ds. is_digit c)"
proof (induction s)
  case Nil
  then show ?case by simp
next
  case (Cons c cs)
  show ?case
  proof (cases "version_re_match (c # cs)")
    case None
    with Cons.prems have "version_re_search cs = Some (l, ds)" by simp
    from Cons.IH [OF this] obtain a t where
      "cs = a @ ord (CHR ''_'') # l # ds @ py ''_vfx'' @ t" and r: "at_dollar t" "is_lower l"
      "ds \<noteq> []" "\<forall>c \<in> set ds. is_digit c"
      by blast
    then have "c # cs = (c # a) @ ord (CHR ''_'') # l # ds @ py ''_vfx'' @ t" by simp
    with r show ?thesis by blast
  next
    case (Some m)
    with Cons.prems have "version_re_match (c # cs) = Some (l, ds)" by simp
    from version_re_match_sound [OF this] show ?thesis
      by (metis append_Nil)
  qed
qed

lemma version_re_match_shape:
  assumes "is_lower l" and "ds \<noteq> []" and "\<forall>c \<in> set ds. is_digit c"
  shows "version_re_match (ord (CHR ''_'') # l # ds @ py ''_vfx'') = Some (l, ds)"
proof -
  have nd: "\<not> is_digit 95" using underscore_not_digit by simp
  have tw: "takeWhile is_digit (ds @ py ''_vfx'') = ds"
    using assms(3) nd by (simp add: takeWhile_append2 py_def)
  have dw: "dropWhile is_digit (ds @ py ''_vfx'') = py ''_vfx''"
    using assms(3) nd by (simp add: dropWhile_append2 py_def)
  show ?thesis
    using assms(1,2) by (simp add: version_re_match_def tw dw at_dollar_def) (simp add: py_def)
qed

lemma version_re_search_complete:
  "version_re_match t \<noteq> None \<Longrightarrow> version_re_search (a @ t) \<noteq> None"
proof (induction a)
  case Nil
  then show ?case by (cases t) (auto simp: version_re_match_def)
next
  case (Cons c a)
  then show ?case by (auto split: option.splits)
qed

lemma digits_tail_unique:
  assumes "a @ l # ds = a' @ l' # ds'"
    and "\<not> is_digit l" and "\<not> is_digit l'"
    and "\<forall>c \<in> set ds. is_digit c" and "\<forall>c \<in> set ds'. is_digit c"
  shows "l = l' \<and> ds = ds'"
proof -
  from assms(1) have "rev ds @ l # rev a = rev ds' @ l' # rev a'"
    by (metis rev.simps(2) rev_append append_assoc append_Cons append_Nil)
  then have "takeWhile is_digit (rev ds @ l # rev a) = takeWhile is_digit (rev ds' @ l' # rev a')"
    by simp
  moreover have "takeWhile is_digit (rev ds @ l # rev a) = rev ds"
    using assms(2,4) by (simp add: takeWhile_tail)
  moreover have "takeWhile is_digit (rev ds' @ l' # rev a') = rev ds'"
    using assms(3,5) by (simp add: takeWhile_tail)
  ultimately have "ds = ds'" by simp
  with assms(1) show ?thesis by simp
qed

lemma version_re_search_shape:
  assumes "is_lower l" and "ds \<noteq> []" and "\<forall>c \<in> set ds. is_digit c"
  shows "version_re_search (a @ ord (CHR ''_'') # l # ds @ py ''_vfx'') = Some (l, ds)"
proof -
  let ?s = "a @ ord (CHR ''_'') # l # ds @ py ''_vfx''"
  have "version_re_search ?s \<noteq> None"
    using version_re_match_shape [OF assms] version_re_search_complete by simp
  then obtain l' ds' where f: "version_re_search ?s = Some (l', ds')" by auto
  from version_re_search_sound [OF this] obtain a' t where
    eq: "?s = a' @ ord (CHR ''_'') # l' # ds' @ py ''_vfx'' @ t" and t: "at_dollar t"
    and l': "is_lower l'" and d': "\<forall>c \<in> set ds'. is_digit c"
    by blast
  have "t = []"
  proof (rule ccontr)
    assume "t \<noteq> []"
    with t have "t = [newline]" by (simp add: at_dollar_def)
    with eq have "last ?s = newline" by (simp add: py_def)
    then show False by (simp add: newline_def py_def)
  qed
  with eq have "(a @ [ord (CHR ''_'')]) @ l # ds = (a' @ [ord (CHR ''_'')]) @ l' # ds'"
    by simp
  from digits_tail_unique [OF this] assms(1,3) l' d' have "l = l' \<and> ds = ds'"
    using digit_not_lower by blast
  with f show ?thesis by simp
qed

lemma version_token_Some_nonempty: "version_token n \<noteq> None \<Longrightarrow> n \<noteq> []"
  by (auto simp: version_token_def name_stem_def)

lemma candidate_exclude:
  "candidate shot ext (Some e) n = (candidate shot ext None n \<and> n \<noteq> e)"
  using version_token_Some_nonempty [of n] by (auto simp: candidate_def)

lemma candidate_shape:
  assumes "glob_literal shot" and "glob_literal ext"
    and "dotted_ext ext" and "is_lower l" and "ds \<noteq> []" and "\<forall>c \<in> set ds. is_digit c"
    and "excl \<noteq> Some (shot @ py ''_'' @ mid @ py ''_'' @ [l] @ ds @ py ''_vfx'' @ ext)"
  shows "candidate shot ext excl (shot @ py ''_'' @ mid @ py ''_'' @ [l] @ ds @ py ''_vfx'' @ ext) \<and>
         version_token (shot @ py ''_'' @ mid @ py ''_'' @ [l] @ ds @ py ''_vfx'' @ ext) = Some (l, ds) \<and>
         version_value (shot @ py ''_'' @ mid @ py ''_'' @ [l] @ ds @ py ''_vfx'' @ ext) = int_of_digits ds"
proof -
  define stem where "stem = (shot @ py ''_'' @ mid) @ ord (CHR ''_'') # l # ds @ py ''_vfx''"
  define name where "name = shot @ py ''_'' @ mid @ py ''_'' @ [l] @ ds @ py ''_vfx'' @ ext"
  define tail where "tail = py ''_vfx'' @ ext"
  have name: "name = stem @ ext" by (simp add: name_def stem_def py_def)
  have ne: "stem \<noteq> []" by (simp add: stem_def)
  have lt: "glob_literal tail"
    using assms(2) by (simp add: tail_def glob_literal_def py_def)
  have m1: "fnmatch tail tail"
    using lt by (simp add: fnmatch_literal)
  have m2: "fnmatch (ds @ tail) (ord (CHR ''*'') # tail)"
    using m1 by (rule fnmatch_star)
  have m3: "fnmatch (l # ds @ tail) (ord (CHR ''?'') # ord (CHR ''*'') # tail)"
    using m2 by (rule fnmatch_question)
  have m4: "fnmatch ([ord (CHR ''_'')] @ l # ds @ tail)
              ([ord (CHR ''_'')] @ ord (CHR ''?'') # ord (CHR ''*'') # tail)"
    using m3 by (intro fnmatch_same_prefix) (simp_all add: glob_literal_def py_def)
  have m5: "fnmatch (mid @ [ord (CHR ''_'')] @ l # ds @ tail)
              (ord (CHR ''*'') # [ord (CHR ''_'')] @ ord (CHR ''?'') # ord (CHR ''*'') # tail)"
    using m4 by (rule fnmatch_star)
  have ls: "glob_literal (shot @ [ord (CHR ''_'')])"
    using assms(1) by (simp add: glob_literal_def py_def)
  have m6: "fnmatch ((shot @ [ord (CHR ''_'')]) @ mid @ [ord (CHR ''_'')] @ l # ds @ tail)
              ((shot @ [ord (CHR ''_'')]) @
               ord (CHR ''*'') # [ord (CHR ''_'')] @ ord (CHR ''?'') # ord (CHR ''*'') # tail)"
    using ls m5 by (rule fnmatch_same_prefix)
  have fm: "fnmatch name (shot @ py ''_*_?*_vfx'' @ ext)"
    using m6 by (simp add: name_def tail_def py_def)
  have sx: "name_suffix name = ext"
    unfolding name using assms(3) ne by (rule name_suffix_dotted)
  have st: "name_stem name = stem"
    unfolding name using assms(3) ne by (rule name_stem_dotted)
  have tok: "version_token name = Some (l, ds)"
    unfolding version_token_def st stem_def
    using assms(4,5,6) by (rule version_re_search_shape)
  have val: "version_value name = int_of_digits ds"
    by (simp add: version_value_def tok)
  have "candidate shot ext excl name"
    using fm sx tok assms(7) by (simp add: candidate_def name_def)
  with tok val show ?thesis unfolding name_def by simp
qed

lemma find_latest_version_not_dir:
  "fs d = Found File \<Longrightarrow> find_latest_version fs shot d ext excl = Inr None"
  by (simp add: find_latest_version_def path_exists_def glob_def is_dir_def)

text \<open>
  C1. For a shot name and an extension without glob metacharacters, in an existing
  directory, \<open>find_latest_version\<close> does not raise; it returns \<open>None\<close> exactly when no
  entry survives the filters, and otherwise the path of a surviving entry whose digit
  group has the highest numeric value among all surviving entries, whatever the vendor
  letters are. An entry named \<open><shot>_<mid>_<letter><digits>_vfx<ext>\<close> that is not the
  excluded filename survives, with the value of its digits; the digits are those of
  \<open>\d\<close> and \<open>int\<close>, the decimal digits of any script.
\<close>

theorem find_latest_version_highest:
  assumes "fs vfx_dir = Found (Dir entries)"
    and "glob_literal shot_name" and "glob_literal file_ext"
  shows "(case find_latest_version fs shot_name vfx_dir file_ext exclude_filename of
            Inl e \<Rightarrow> False
          | Inr None \<Rightarrow> \<forall>n \<in> set entries. \<not> candidate shot_name file_ext exclude_filename n
          | Inr (Some p) \<Rightarrow>
              \<exists>n \<in> set entries.
                candidate shot_name file_ext exclude_filename n \<and>
                p = path_str (make_child_relpath vfx_dir n) \<and>
                (\<forall>n' \<in> set entries.
                   candidate shot_name file_ext exclude_filename n' \<longrightarrow>
                   version_value n' \<le> version_value n)) \<and>
         (dotted_ext file_ext \<and>
          is_lower l \<and> ds \<noteq> [] \<and> (\<forall>c \<in> set ds. is_digit c) \<and>
          exclude_filename \<noteq>
            Some (shot_name @ py ''_'' @ mid @ py ''_'' @ [l] @ ds @ py ''_vfx'' @ file_ext) \<longrightarrow>
          candidate shot_name file_ext exclude_filename
            (shot_name @ py ''_'' @ mid @ py ''_'' @ [l] @ ds @ py ''_vfx'' @ file_ext) \<and>
          version_value (shot_name @ py ''_'' @ mid @ py ''_'' @ [l] @ ds @ py ''_vfx'' @ file_ext) =
            int_of_digits ds)"
proof (intro conjI impI)
  let ?r = "find_latest_version fs shot_name vfx_dir file_ext exclude_filename"
  from find_latest_version_no_raise [of fs vfx_dir "Dir entries", OF assms(1)]
  obtain r where r: "?r = Inr r" by blast
  show "case ?r of
          Inl e \<Rightarrow> False
        | Inr None \<Rightarrow> \<forall>n \<in> set entries. \<not> candidate shot_name file_ext exclude_filename n
        | Inr (Some p) \<Rightarrow>
            \<exists>n \<in> set entries.
              candidate shot_name file_ext exclude_filename n \<and>
              p = path_str (make_child_relpath vfx_dir n) \<and>
              (\<forall>n' \<in> set entries.
                 candidate shot_name file_ext exclude_filename n' \<longrightarrow>
                 version_value n' \<le> version_value n)"
  proof (cases r)
    case None
    with r have "?r = Inr None" by simp
    then have "\<forall>n \<in> set entries. \<not> candidate shot_name file_ext exclude_filename n"
      using find_latest_version_None [of fs vfx_dir entries, OF assms(1)] by simp
    with r None show ?thesis by simp
  next
    case (Some p)
    with r have s: "?r = Inr (Some p)" by simp
    from find_latest_version_Some [of fs vfx_dir entries, OF assms(1) s] s
    show ?thesis by auto
  qed
next
  assume h: "dotted_ext file_ext \<and>
          is_lower l \<and> ds \<noteq> [] \<and> (\<forall>c \<in> set ds. is_digit c) \<and>
          exclude_filename \<noteq>
            Some (shot_name @ py ''_'' @ mid @ py ''_'' @ [l] @ ds @ py ''_vfx'' @ file_ext)"
  with assms(2,3) have sh: "candidate shot_name file_ext exclude_filename
            (shot_name @ py ''_'' @ mid @ py ''_'' @ [l] @ ds @ py ''_vfx'' @ file_ext) \<and>
         version_token (shot_name @ py ''_'' @ mid @ py ''_'' @ [l] @ ds @ py ''_vfx'' @ file_ext) =
           Some (l, ds) \<and>
         version_value (shot_name @ py ''_'' @ mid @ py ''_'' @ [l] @ ds @ py ''_vfx'' @ file_ext) =
            int_of_digits ds"
    by (intro candidate_shape) simp_all
  from sh show "candidate shot_name file_ext exclude_filename
            (shot_name @ py ''_'' @ mid @ py ''_'' @ [l] @ ds @ py ''_vfx'' @ file_ext)"
    by (rule conjunct1)
  from sh show "version_value (shot_name @ py ''_'' @ mid @ py ''_'' @ [l] @ ds @ py ''_vfx'' @ file_ext) =
            int_of_digits ds"
    by (rule conjunct2 [THEN conjunct2])
qed

lemma latest_tree_entries:
  "latest_tree vfx_1140 =
     Found (Dir [py ''SEQ_1140a_comp_u0003_vfx.mov'',
                 py ''SEQ_1140a_comp_w0012_vfx.mov'',
                 py ''SEQ_1140a_comp_i0007_vfx.mov''])"
  by (simp add: latest_tree_def tree_with_def)

lemma arabic_tree_entries:
  "arabic_tree vfx_1140 =
     Found (Dir [py ''SEQ_1140a_comp_w0012_vfx.mov'', name_u99,
                 py ''SEQ_1140a_comp_u0000_vfx.mov''])"
  by (simp add: arabic_tree_def tree_with_def)

lemma literal_SEQ_1140a:
  "glob_literal (py ''SEQ_1140a'')" "glob_literal (py ''.mov'')" "dotted_ext (py ''.mov'')"
  by (simp_all add: glob_literal_def dotted_ext_def py_def)

theorem find_latest_version_highest_witness:
  "find_latest_version latest_tree (py ''SEQ_1140a'') vfx_1140 (py ''.mov'') None =
     Inr (Some (py ''/shots/SEQ/SEQ_1140/_vfx/SEQ_1140a_comp_w0012_vfx.mov'')) \<and>
   version_value (py ''SEQ_1140a_comp_u0003_vfx.mov'') \<le>
     version_value (py ''SEQ_1140a_comp_w0012_vfx.mov'') \<and>
   version_value (py ''SEQ_1140a_comp_i0007_vfx.mov'') \<le>
     version_value (py ''SEQ_1140a_comp_w0012_vfx.mov'') \<and>
   version_value (py ''SEQ_1140a_comp_w0012_vfx.mov'') = int_of_digits (py ''0012'') \<and>
   int_of_digits (py ''0012'') = 12 \<and>
   find_latest_version arabic_tree (py ''SEQ_1140a'') vfx_1140 (py ''.mov'') None =
     Inr (Some (path_str (make_child_relpath vfx_1140 name_u99))) \<and>
   version_value name_u99 = int_of_digits [1641, 1641] \<and>
   int_of_digits [1641, 1641] = 99"
proof -
  let ?u = "py ''SEQ_1140a_comp_u0003_vfx.mov''"
  let ?w = "py ''SEQ_1140a_comp_w0012_vfx.mov''"
  let ?i = "py ''SEQ_1140a_comp_i0007_vfx.mov''"
  note hi = find_latest_version_highest [where fs = latest_tree and vfx_dir = vfx_1140
      and entries = "[?u, ?w, ?i]" and shot_name = "py ''SEQ_1140a''"
      and file_ext = "py ''.mov''" and exclude_filename = None,
      OF latest_tree_entries literal_SEQ_1140a(1,2)]
  note ha = find_latest_version_highest [where fs = arabic_tree and vfx_dir = vfx_1140
      and shot_name = "py ''SEQ_1140a''"
      and file_ext = "py ''.mov''" and exclude_filename = None
      and l = "ord (CHR ''u'')" and ds = "[1641, 1641]" and mid = "py ''comp''",
      OF arabic_tree_entries literal_SEQ_1140a(1,2), THEN conjunct2]
  have res: "find_latest_version latest_tree (py ''SEQ_1140a'') vfx_1140 (py ''.mov'') None =
               Inr (Some (py ''/shots/SEQ/SEQ_1140/_vfx/SEQ_1140a_comp_w0012_vfx.mov''))"
    by code_simp
  have resa: "find_latest_version arabic_tree (py ''SEQ_1140a'') vfx_1140 (py ''.mov'') None =
     Inr (Some (path_str (make_child_relpath vfx_1140 name_u99)))"
    by code_simp
  have pw: "path_str (make_child_relpath vfx_1140 ?w) =
              py ''/shots/SEQ/SEQ_1140/_vfx/SEQ_1140a_comp_w0012_vfx.mov''"
    by code_simp
  have cu: "candidate (py ''SEQ_1140a'') (py ''.mov'') None ?u" by code_simp
  have ci: "candidate (py ''SEQ_1140a'') (py ''.mov'') None ?i" by code_simp
  have low: "is_lower (ord (CHR ''w''))" "is_lower (ord (CHR ''u''))"
    by (simp_all add: is_lower_def)
  have dig: "\<forall>c \<in> set (py ''0012''). is_digit c"
    by (simp add: py_def is_digit_ascii)
  have diga: "\<forall>c \<in> set [1641, 1641]. is_digit c"
    by (simp add: is_digit_iff decimal_zeros_def)
  have nw: "?w = py ''SEQ_1140a'' @ py ''_'' @ py ''comp'' @ py ''_'' @ [ord (CHR ''w'')] @
              py ''0012'' @ py ''_vfx'' @ py ''.mov''"
    by (simp add: py_def)
  have na: "name_u99 = py ''SEQ_1140a'' @ py ''_'' @ py ''comp'' @ py ''_'' @ [ord (CHR ''u'')] @
              [1641, 1641] @ py ''_vfx'' @ py ''.mov''"
    by (simp add: py_def name_u99_def)
  from hi [where l = "ord (CHR ''w'')" and ds = "py ''0012''" and mid = "py ''comp''",
      THEN conjunct2, folded nw] literal_SEQ_1140a(3) low(1) dig
  have vw: "version_value ?w = int_of_digits (py ''0012'')" by (simp add: py_def)
  from ha [folded na] literal_SEQ_1140a(3) low(2) diga
  have va: "version_value name_u99 = int_of_digits [1641, 1641]" by simp
  from hi [where l = "ord (CHR ''w'')" and ds = "py ''0012''" and mid = "py ''comp''",
      THEN conjunct1] res
  obtain n where n: "n \<in> set [?u, ?w, ?i]"
    "py ''/shots/SEQ/SEQ_1140/_vfx/SEQ_1140a_comp_w0012_vfx.mov'' =
       path_str (make_child_relpath vfx_1140 n)"
    and mx: "\<forall>n' \<in> set [?u, ?w, ?i]. candidate (py ''SEQ_1140a'') (py ''.mov'') None n' \<longrightarrow>
               version_value n' \<le> version_value n"
    by (auto simp del: set_simps)
  from n(2) pw have e: "path_str (make_child_relpath vfx_1140 ?w) =
                          path_str (make_child_relpath vfx_1140 n)"
    by (simp only:)
  have "n = ?w" using e [unfolded path_str_child_inject] by (rule sym)
  with mx cu ci have "version_value ?u \<le> version_value ?w"
    and "version_value ?i \<le> version_value ?w"
    by simp_all
  moreover have "int_of_digits (py ''0012'') = 12" by code_simp
  moreover have "int_of_digits [1641, 1641] = 99" by code_simp
  ultimately show ?thesis using res vw resa va by (intro conjI)
qed

lemma find_latest_version_no_dir:
  assumes "\<forall>entries. fs d \<noteq> Found (Dir entries)"
  shows "find_latest_version fs shot d ext excl \<noteq> Inr (Some p)"
proof (cases "fs d")
  case (Found n)
  with assms have "n = File" by (cases n) auto
  with Found have "find_latest_version fs shot d ext excl = Inr None"
    by (simp add: find_latest_version_not_dir)
  then show ?thesis by simp
next
  case (Failed e)
  then show ?thesis by (simp add: find_latest_version_def path_exists_def)
next
  case Unencodable
  then show ?thesis by (simp add: find_latest_version_def path_exists_def)
qed

text \<open>
  C2. For a shot name and an extension without glob metacharacters,
  \<open>find_latest_version\<close> never returns the path of the entry named
  \<open>exclude_filename\<close>. In an existing directory that entry is dropped before the
  ranking: the lookup does not raise, the result is the path of an entry other than it
  whose value is highest among the entries that survive the other filters and differ
  from it, and the result is \<open>None\<close> only if no such entry is left. An entry named
  \<open><shot>_<mid>_<letter><digits>_vfx<ext>\<close> survives the other filters, with the value of
  its digits.
\<close>

theorem find_latest_version_excludes:
  assumes "glob_literal shot_name" and "glob_literal file_ext"
  shows "find_latest_version fs shot_name vfx_dir file_ext (Some e) \<noteq>
     Inr (Some (path_str (make_child_relpath vfx_dir e))) \<and>
   (fs vfx_dir = Found (Dir entries) \<longrightarrow>
      (case find_latest_version fs shot_name vfx_dir file_ext (Some e) of
         Inl err \<Rightarrow> False
       | Inr None \<Rightarrow> \<forall>n \<in> set entries. candidate shot_name file_ext None n \<longrightarrow> n = e
       | Inr (Some p) \<Rightarrow>
           \<exists>n \<in> set entries.
             n \<noteq> e \<and> candidate shot_name file_ext None n \<and>
             p = path_str (make_child_relpath vfx_dir n) \<and>
             (\<forall>n' \<in> set entries.
                n' \<noteq> e \<and> candidate shot_name file_ext None n' \<longrightarrow>
                version_value n' \<le> version_value n))) \<and>
   (dotted_ext file_ext \<and> is_lower l \<and> ds \<noteq> [] \<and> (\<forall>c \<in> set ds. is_digit c) \<longrightarrow>
      candidate shot_name file_ext None
        (shot_name @ py ''_'' @ mid @ py ''_'' @ [l] @ ds @ py ''_vfx'' @ file_ext) \<and>
      version_value (shot_name @ py ''_'' @ mid @ py ''_'' @ [l] @ ds @ py ''_vfx'' @ file_ext) =
        int_of_digits ds)"
proof -
  let ?r = "find_latest_version fs shot_name vfx_dir file_ext (Some e)"
  have dir: "case ?r of
         Inl err \<Rightarrow> False
       | Inr None \<Rightarrow> \<forall>n \<in> set entries. candidate shot_name file_ext None n \<longrightarrow> n = e
       | Inr (Some p) \<Rightarrow>
           \<exists>n \<in> set entries.
             n \<noteq> e \<and> candidate shot_name file_ext None n \<and>
             p = path_str (make_child_relpath vfx_dir n) \<and>
             (\<forall>n' \<in> set entries.
                n' \<noteq> e \<and> candidate shot_name file_ext None n' \<longrightarrow>
                version_value n' \<le> version_value n)"
    if d: "fs vfx_dir = Found (Dir entries)" for entries
  proof -
    from find_latest_version_no_raise [of fs vfx_dir "Dir entries", OF d]
    obtain r where r: "?r = Inr r" by blast
    show ?thesis
    proof (cases r)
      case None
      with r have "?r = Inr None" by simp
      then have "\<forall>n \<in> set entries. \<not> candidate shot_name file_ext (Some e) n"
        using find_latest_version_None [of fs vfx_dir entries, OF d] by simp
      then have "\<forall>n \<in> set entries. candidate shot_name file_ext None n \<longrightarrow> n = e"
        by (simp add: candidate_exclude)
      with r None show ?thesis by simp
    next
      case (Some p)
      with r have s: "?r = Inr (Some p)" by simp
      from find_latest_version_Some [of fs vfx_dir entries, OF d s]
      obtain n where "n \<in> set entries" "candidate shot_name file_ext (Some e) n"
        "p = path_str (make_child_relpath vfx_dir n)"
        "\<forall>n' \<in> set entries. candidate shot_name file_ext (Some e) n' \<longrightarrow>
           version_value n' \<le> version_value n"
        by blast
      then have "\<exists>n \<in> set entries.
               n \<noteq> e \<and> candidate shot_name file_ext None n \<and>
               p = path_str (make_child_relpath vfx_dir n) \<and>
               (\<forall>n' \<in> set entries.
                  n' \<noteq> e \<and> candidate shot_name file_ext None n' \<longrightarrow>
                  version_value n' \<le> version_value n)"
        by (auto simp: candidate_exclude)
      with s show ?thesis by simp
    qed
  qed
  have never: "?r \<noteq> Inr (Some (path_str (make_child_relpath vfx_dir e)))"
  proof (cases "\<exists>entries. fs vfx_dir = Found (Dir entries)")
    case True
    then obtain entries where d: "fs vfx_dir = Found (Dir entries)" by blast
    show ?thesis
    proof
      assume a: "?r = Inr (Some (path_str (make_child_relpath vfx_dir e)))"
      with dir [OF d] obtain n where "n \<noteq> e"
        "path_str (make_child_relpath vfx_dir e) = path_str (make_child_relpath vfx_dir n)"
        by auto
      then show False by (simp add: path_str_child_inject)
    qed
  next
    case False
    then show ?thesis by (intro find_latest_version_no_dir) blast
  qed
  have shape: "candidate shot_name file_ext None
        (shot_name @ py ''_'' @ mid @ py ''_'' @ [l] @ ds @ py ''_vfx'' @ file_ext) \<and>
      version_value (shot_name @ py ''_'' @ mid @ py ''_'' @ [l] @ ds @ py ''_vfx'' @ file_ext) =
        int_of_digits ds"
    if h: "dotted_ext file_ext \<and> is_lower l \<and> ds \<noteq> [] \<and> (\<forall>c \<in> set ds. is_digit c)"
  proof -
    have "candidate shot_name file_ext None
            (shot_name @ py ''_'' @ mid @ py ''_'' @ [l] @ ds @ py ''_vfx'' @ file_ext) \<and>
         version_token (shot_name @ py ''_'' @ mid @ py ''_'' @ [l] @ ds @ py ''_vfx'' @ file_ext) =
           Some (l, ds) \<and>
         version_value (shot_name @ py ''_'' @ mid @ py ''_'' @ [l] @ ds @ py ''_vfx'' @ file_ext) =
            int_of_digits ds"
      using assms h by (intro candidate_shape) simp_all
    then show ?thesis by (simp only: simp_thms)
  qed
  show ?thesis
  proof (intro conjI)
    show "?r \<noteq> Inr (Some (path_str (make_child_relpath vfx_dir e)))" by (rule never)
  qed (rule impI, erule dir, rule impI, erule shape)
qed

theorem find_latest_version_excludes_witness:
  "find_latest_version latest_tree (py ''SEQ_1140a'') vfx_1140 (py ''.mov'')
     (Some (py ''SEQ_1140a_comp_w0012_vfx.mov'')) =
     Inr (Some (py ''/shots/SEQ/SEQ_1140/_vfx/SEQ_1140a_comp_i0007_vfx.mov'')) \<and>
   find_latest_version latest_tree (py ''SEQ_1140a'') vfx_1140 (py ''.mov'')
     (Some (py ''SEQ_1140a_comp_w0012_vfx.mov'')) \<noteq>
     Inr (Some (path_str (make_child_relpath vfx_1140 (py ''SEQ_1140a_comp_w0012_vfx.mov'')))) \<and>
   version_value (py ''SEQ_1140a_comp_u0003_vfx.mov'') \<le>
     version_value (py ''SEQ_1140a_comp_i0007_vfx.mov'') \<and>
   version_value (py ''SEQ_1140a_comp_i0007_vfx.mov'') = 7"
proof -
  let ?u = "py ''SEQ_1140a_comp_u0003_vfx.mov''"
  let ?w = "py ''SEQ_1140a_comp_w0012_vfx.mov''"
  let ?i = "py ''SEQ_1140a_comp_i0007_vfx.mov''"
  note hi = find_latest_version_excludes [where fs = latest_tree
      and shot_name = "py ''SEQ_1140a''" and vfx_dir = vfx_1140 and file_ext = "py ''.mov''"
      and e = ?w and entries = "[?u, ?w, ?i]"
      and l = "ord (CHR ''i'')" and ds = "py ''0007''" and mid = "py ''comp''",
      OF literal_SEQ_1140a(1,2)]
  have res: "find_latest_version latest_tree (py ''SEQ_1140a'') vfx_1140 (py ''.mov'') (Some ?w) =
               Inr (Some (py ''/shots/SEQ/SEQ_1140/_vfx/SEQ_1140a_comp_i0007_vfx.mov''))"
    by code_simp
  have a: "find_latest_version latest_tree (py ''SEQ_1140a'') vfx_1140 (py ''.mov'') (Some ?w) \<noteq>
             Inr (Some (path_str (make_child_relpath vfx_1140 ?w)))"
    using hi by (rule conjunct1)
  note b = hi [THEN conjunct2, THEN conjunct1, THEN mp, OF latest_tree_entries]
  have c: "\<exists>n \<in> set [?u, ?w, ?i]. n \<noteq> ?w \<and>
          candidate (py ''SEQ_1140a'') (py ''.mov'') None n \<and>
          py ''/shots/SEQ/SEQ_1140/_vfx/SEQ_1140a_comp_i0007_vfx.mov'' =
            path_str (make_child_relpath vfx_1140 n) \<and>
          (\<forall>n' \<in> set [?u, ?w, ?i].
             n' \<noteq> ?w \<and> candidate (py ''SEQ_1140a'') (py ''.mov'') None n' \<longrightarrow>
             version_value n' \<le> version_value n)"
    using b unfolding res by (simp only: option.case sum.case)
  have pi: "path_str (make_child_relpath vfx_1140 ?i) =
              py ''/shots/SEQ/SEQ_1140/_vfx/SEQ_1140a_comp_i0007_vfx.mov''"
    by code_simp
  have cu: "candidate (py ''SEQ_1140a'') (py ''.mov'') None ?u"
    by code_simp
  have nu: "?u \<noteq> ?w" by code_simp
  from c obtain n where n:
    "py ''/shots/SEQ/SEQ_1140/_vfx/SEQ_1140a_comp_i0007_vfx.mov'' =
       path_str (make_child_relpath vfx_1140 n)"
    and mx: "\<forall>n' \<in> set [?u, ?w, ?i].
               n' \<noteq> ?w \<and> candidate (py ''SEQ_1140a'') (py ''.mov'') None n' \<longrightarrow>
               version_value n' \<le> version_value n"
    by (elim bexE conjE)
  from n pi have e: "path_str (make_child_relpath vfx_1140 ?i) =
                     path_str (make_child_relpath vfx_1140 n)"
    by (simp only:)
  have ni: "n = ?i" using e [unfolded path_str_child_inject] by (rule sym)
  have "?u \<in> set [?u, ?w, ?i]" by simp
  with mx have "?u \<noteq> ?w \<and> candidate (py ''SEQ_1140a'') (py ''.mov'') None ?u \<longrightarrow>
                version_value ?u \<le> version_value n"
    by (rule bspec)
  with nu cu have "version_value ?u \<le> version_value n" by (simp only: simp_thms)
  with ni have le: "version_value ?u \<le> version_value ?i" by (simp only:)
  have v7: "version_value ?i = 7" by code_simp
  from res a le v7 show ?thesis by (intro conjI)
qed

lemma int_of_digits_0000: "int_of_digits (py ''0000'') = 0"
  by code_simp

lemma digits_0000: "\<forall>c \<in> set (py ''0000''). is_digit c"
  by (simp add: py_def is_digit_ascii)

text \<open>
  C10. A version zero is ranked like any other version. For a shot name and an
  extension without glob metacharacters, an entry named
  \<open><shot>_<mid>_<letter>0000_vfx<ext>\<close> that is not the excluded filename survives the
  filters with the value 0; the lookup then returns the path of a surviving entry whose
  value is at least 0, and when no other entry survives the version zero itself is the
  result.
\<close>

theorem find_latest_version_ranks_version_zero:
  assumes "fs vfx_dir = Found (Dir entries)"
    and "glob_literal shot_name" and "glob_literal file_ext" and "dotted_ext file_ext"
    and "is_lower l"
    and "name = shot_name @ py ''_'' @ mid @ py ''_'' @ [l] @ py ''0000'' @ py ''_vfx'' @ file_ext"
    and "name \<in> set entries"
    and "exclude_filename \<noteq> Some name"
  shows "candidate shot_name file_ext exclude_filename name \<and>
         version_value name = 0 \<and>
         (\<exists>n \<in> set entries.
            candidate shot_name file_ext exclude_filename n \<and>
            version_value name \<le> version_value n \<and>
            find_latest_version fs shot_name vfx_dir file_ext exclude_filename =
              Inr (Some (path_str (make_child_relpath vfx_dir n)))) \<and>
         ((\<forall>n \<in> set entries. n \<noteq> name \<longrightarrow> \<not> candidate shot_name file_ext exclude_filename n) \<longrightarrow>
          find_latest_version fs shot_name vfx_dir file_ext exclude_filename =
            Inr (Some (path_str (make_child_relpath vfx_dir name))))"
proof -
  let ?r = "find_latest_version fs shot_name vfx_dir file_ext exclude_filename"
  have ne: "py ''0000'' \<noteq> []" by (simp add: py_def)
  have ex: "exclude_filename \<noteq>
            Some (shot_name @ py ''_'' @ mid @ py ''_'' @ [l] @ py ''0000'' @ py ''_vfx'' @ file_ext)"
    using assms(8) unfolding assms(6) .
  note sh = candidate_shape [OF assms(2,3,4,5) ne digits_0000 ex, folded assms(6)]
  from sh have c: "candidate shot_name file_ext exclude_filename name"
    by (rule conjunct1)
  from sh have "version_value name = int_of_digits (py ''0000'')"
    by (rule conjunct2 [THEN conjunct2])
  then have v: "version_value name = 0"
    by (simp only: int_of_digits_0000)
  from find_latest_version_no_raise [of fs vfx_dir "Dir entries", OF assms(1)]
  obtain r where r: "?r = Inr r" by blast
  have "r \<noteq> None"
  proof
    assume "r = None"
    with r have "?r = Inr None" by simp
    then have "\<forall>n \<in> set entries. \<not> candidate shot_name file_ext exclude_filename n"
      using find_latest_version_None [of fs vfx_dir entries, OF assms(1)] by simp
    with c assms(7) show False by blast
  qed
  then obtain p where p: "?r = Inr (Some p)" using r by auto
  from find_latest_version_Some [of fs vfx_dir entries, OF assms(1) p]
  obtain n where n: "n \<in> set entries" "candidate shot_name file_ext exclude_filename n"
    "p = path_str (make_child_relpath vfx_dir n)"
    "\<forall>n' \<in> set entries. candidate shot_name file_ext exclude_filename n' \<longrightarrow>
       version_value n' \<le> version_value n"
    by blast
  from n(4) assms(7) c have le: "version_value name \<le> version_value n" by blast
  have win: "\<exists>n \<in> set entries.
            candidate shot_name file_ext exclude_filename n \<and>
            version_value name \<le> version_value n \<and>
            ?r = Inr (Some (path_str (make_child_relpath vfx_dir n)))"
    using n(1,2,3) le p by blast
  have alone: "?r = Inr (Some (path_str (make_child_relpath vfx_dir name)))"
    if only: "\<forall>n \<in> set entries. n \<noteq> name \<longrightarrow> \<not> candidate shot_name file_ext exclude_filename n"
  proof -
    from only n(1,2) have "n = name" by blast
    with p n(3) show ?thesis by simp
  qed
  show ?thesis
  proof (intro conjI)
    show "candidate shot_name file_ext exclude_filename name" by (rule c)
    show "version_value name = 0" by (rule v)
    show "\<exists>n \<in> set entries.
            candidate shot_name file_ext exclude_filename n \<and>
            version_value name \<le> version_value n \<and>
            ?r = Inr (Some (path_str (make_child_relpath vfx_dir n)))" by (rule win)
  qed (rule impI, erule alone)
qed

lemma zero_only_tree_entries:
  "zero_only_tree vfx_1140 =
     Found (Dir [py ''SEQ_1140a_comp_u0000_vfx.mov'', py ''notes.txt''])"
  by (simp add: zero_only_tree_def tree_with_def)

theorem find_latest_version_ranks_version_zero_witness:
  "find_latest_version zero_only_tree (py ''SEQ_1140a'') vfx_1140 (py ''.mov'')
     (Some (py ''SEQ_1140a_comp_w0012_vfx.mov'')) =
     Inr (Some (path_str (make_child_relpath vfx_1140 (py ''SEQ_1140a_comp_u0000_vfx.mov'')))) \<and>
   version_value (py ''SEQ_1140a_comp_u0000_vfx.mov'') = 0 \<and>
   find_latest_version arabic_tree (py ''SEQ_1140a'') vfx_1140 (py ''.mov'')
     (Some (py ''SEQ_1140a_comp_w0012_vfx.mov'')) =
     Inr (Some (path_str (make_child_relpath vfx_1140 name_u99)))"
proof -
  let ?z = "py ''SEQ_1140a_comp_u0000_vfx.mov''"
  let ?x = "Some (py ''SEQ_1140a_comp_w0012_vfx.mov'')"
  have low: "is_lower (ord (CHR ''u''))" by (simp add: is_lower_def)
  have nm: "?z = py ''SEQ_1140a'' @ py ''_'' @ py ''comp'' @ py ''_'' @ [ord (CHR ''u'')] @
              py ''0000'' @ py ''_vfx'' @ py ''.mov''"
    by (simp add: py_def)
  have mem: "?z \<in> set [?z, py ''notes.txt'']" by simp
  have ex: "?x \<noteq> Some ?z" by code_simp
  have other: "\<forall>n \<in> set [?z, py ''notes.txt'']. n \<noteq> ?z \<longrightarrow>
                 \<not> candidate (py ''SEQ_1140a'') (py ''.mov'') ?x n"
    by code_simp
  from find_latest_version_ranks_version_zero [where fs = zero_only_tree
      and vfx_dir = vfx_1140 and entries = "[?z, py ''notes.txt'']"
      and shot_name = "py ''SEQ_1140a''" and file_ext = "py ''.mov''"
      and l = "ord (CHR ''u'')" and name = ?z and mid = "py ''comp''"
      and exclude_filename = ?x,
      OF zero_only_tree_entries literal_SEQ_1140a low nm mem ex]
  have "version_value ?z = 0"
    and "(\<forall>n \<in> set [?z, py ''notes.txt'']. n \<noteq> ?z \<longrightarrow>
            \<not> candidate (py ''SEQ_1140a'') (py ''.mov'') ?x n) \<longrightarrow>
          find_latest_version zero_only_tree (py ''SEQ_1140a'') vfx_1140 (py ''.mov'') ?x =
            Inr (Some (path_str (make_child_relpath vfx_1140 ?z)))"
    by (rule conjunct2 [THEN conjunct1], rule conjunct2 [THEN conjunct2, THEN conjunct2])
  moreover have "find_latest_version arabic_tree (py ''SEQ_1140a'') vfx_1140 (py ''.mov'') ?x =
     Inr (Some (path_str (make_child_relpath vfx_1140 name_u99)))"
    by code_simp
  ultimately show ?thesis using other by (intro conjI) (rule mp)
qed

lemma find_version_zero_dir:
  assumes "fs d = Found (Dir entries)"
  shows "find_version_zero fs shot d ext =
    (case filter (zero_match (shot_base shot @ py ''_*_?0000_vfx'' @ ext) ext) entries of
       n # _ \<Rightarrow> Inr (Some (path_str (make_child_relpath d n)))
     | [] \<Rightarrow>
         (case filter (zero_match (shot_base shot @ py ''_?0000_vfx'' @ ext) ext) entries of
            n # _ \<Rightarrow> Inr (Some (path_str (make_child_relpath d n)))
          | [] \<Rightarrow> Inr None))"
proof -
  define p1 where "p1 = shot_base shot @ py ''_*_?0000_vfx'' @ ext"
  define p2 where "p2 = shot_base shot @ py ''_?0000_vfx'' @ ext"
  have ex: "path_exists fs d = Inr True" using assms by (simp add: path_exists_def)
  have "find_version_zero fs shot d ext = version_zero_loop fs d ext [p1, p2]"
    unfolding find_version_zero_def Let_def p1_def p2_def ex by simp
  also have "\<dots> =
    (case filter (zero_match p1 ext) entries of
       n # _ \<Rightarrow> Inr (Some (path_str (make_child_relpath d n)))
     | [] \<Rightarrow>
         (case filter (zero_match p2 ext) entries of
            n # _ \<Rightarrow> Inr (Some (path_str (make_child_relpath d n)))
          | [] \<Rightarrow> Inr None))"
    by (simp add: glob_dir [of fs d entries, OF assms] filter_suffix_children
          split: list.splits)
  finally show ?thesis unfolding p1_def p2_def .
qed

lemma zero_match_dotted:
  assumes "glob_literal ext" and "dotted_ext ext" and "\<not> set q \<subseteq> {ord (CHR ''*'')}"
  shows "zero_match (q @ ext) ext n = fnmatch n (q @ ext)"
proof (cases "fnmatch n (q @ ext)")
  case True
  from fnmatch_literal_suffix [OF assms(1) True] obtain x where
    x: "n = x @ ext" "fnmatch x q" by blast
  have "x \<noteq> []" using x(2) assms(3) fnmatch_Nil_stars by blast
  then have "name_suffix n = ext" unfolding x(1) using assms(2) by (intro name_suffix_dotted)
  with True show ?thesis by (simp add: zero_match_def)
next
  case False
  then show ?thesis by (simp add: zero_match_def)
qed

lemma zero_match_pat1:
  assumes "glob_literal ext" and "dotted_ext ext"
  shows "zero_match (b @ py ''_*_?0000_vfx'' @ ext) ext =
         (\<lambda>n. fnmatch n (b @ py ''_*_?0000_vfx'' @ ext))"
proof
  fix n
  have "\<not> set (b @ py ''_*_?0000_vfx'') \<subseteq> {ord (CHR ''*'')}" by (simp add: py_def)
  from zero_match_dotted [OF assms this, of n]
  show "zero_match (b @ py ''_*_?0000_vfx'' @ ext) ext n =
        fnmatch n (b @ py ''_*_?0000_vfx'' @ ext)"
    by simp
qed

lemma zero_match_pat2:
  assumes "glob_literal ext" and "dotted_ext ext"
  shows "zero_match (b @ py ''_?0000_vfx'' @ ext) ext =
         (\<lambda>n. fnmatch n (b @ py ''_?0000_vfx'' @ ext))"
proof
  fix n
  have "\<not> set (b @ py ''_?0000_vfx'') \<subseteq> {ord (CHR ''*'')}" by (simp add: py_def)
  from zero_match_dotted [OF assms this, of n]
  show "zero_match (b @ py ''_?0000_vfx'' @ ext) ext n =
        fnmatch n (b @ py ''_?0000_vfx'' @ ext)"
    by simp
qed

lemma find_version_zero_fnmatch:
  assumes "fs d = Found (Dir entries)" and "glob_literal ext" and "dotted_ext ext"
  shows "find_version_zero fs shot d ext =
    (case filter (\<lambda>n. fnmatch n (shot_base shot @ py ''_*_?0000_vfx'' @ ext)) entries of
       n # _ \<Rightarrow> Inr (Some (path_str (make_child_relpath d n)))
     | [] \<Rightarrow>
         (case filter (\<lambda>n. fnmatch n (shot_base shot @ py ''_?0000_vfx'' @ ext)) entries of
            n # _ \<Rightarrow> Inr (Some (path_str (make_child_relpath d n)))
          | [] \<Rightarrow> Inr None))"
  unfolding find_version_zero_dir [of fs d entries, OF assms(1)]
    zero_match_pat1 [OF assms(2,3)] zero_match_pat2 [OF assms(2,3)] ..

text \<open>
  C9. With an extension such as \<open>.mov\<close>, as soon as some entry of the directory matches
  \<open><base>_*_?0000_vfx<ext>\<close> the result is the first entry, in the order of
  enumeration, that matches this pattern, wherever the entries that match
  \<open><base>_?0000_vfx<ext>\<close> stand; the second pattern decides only when no entry
  matches the first, and then its first match is the result.
\<close>

theorem find_version_zero_pattern_priority:
  assumes "fs vfx_dir = Found (Dir entries)"
    and "glob_literal shot_name" and "glob_literal file_ext" and "dotted_ext file_ext"
  shows "((\<exists>n \<in> set entries. fnmatch n (shot_base shot_name @ py ''_*_?0000_vfx'' @ file_ext)) \<longrightarrow>
            (\<exists>n \<in> set entries.
               fnmatch n (shot_base shot_name @ py ''_*_?0000_vfx'' @ file_ext) \<and>
               n = hd (filter (\<lambda>m. fnmatch m (shot_base shot_name @ py ''_*_?0000_vfx'' @ file_ext))
                         entries) \<and>
               find_version_zero fs shot_name vfx_dir file_ext =
                 Inr (Some (path_str (make_child_relpath vfx_dir n))))) \<and>
         ((\<forall>n \<in> set entries. \<not> fnmatch n (shot_base shot_name @ py ''_*_?0000_vfx'' @ file_ext)) \<longrightarrow>
            find_version_zero fs shot_name vfx_dir file_ext =
              (case filter (\<lambda>m. fnmatch m (shot_base shot_name @ py ''_?0000_vfx'' @ file_ext))
                      entries of
                 [] \<Rightarrow> Inr None
               | n # _ \<Rightarrow> Inr (Some (path_str (make_child_relpath vfx_dir n)))))"
proof (intro conjI impI)
  define P where "P = (\<lambda>m. fnmatch m (shot_base shot_name @ py ''_*_?0000_vfx'' @ file_ext))"
  define Q where "Q = (\<lambda>m. fnmatch m (shot_base shot_name @ py ''_?0000_vfx'' @ file_ext))"
  have fvz: "find_version_zero fs shot_name vfx_dir file_ext =
    (case filter P entries of
       n # _ \<Rightarrow> Inr (Some (path_str (make_child_relpath vfx_dir n)))
     | [] \<Rightarrow>
         (case filter Q entries of
            n # _ \<Rightarrow> Inr (Some (path_str (make_child_relpath vfx_dir n)))
          | [] \<Rightarrow> Inr None))"
    unfolding P_def Q_def using assms(1,3,4) by (rule find_version_zero_fnmatch)
  {
    assume "\<exists>n \<in> set entries. fnmatch n (shot_base shot_name @ py ''_*_?0000_vfx'' @ file_ext)"
    then have "\<exists>n \<in> set entries. P n" by (simp add: P_def)
    then have ne: "filter P entries \<noteq> []" by (simp add: filter_empty_conv)
    then have "hd (filter P entries) \<in> set (filter P entries)" by (rule hd_in_set)
    then have "hd (filter P entries) \<in> set entries" and "P (hd (filter P entries))" by simp_all
    moreover have "find_version_zero fs shot_name vfx_dir file_ext =
        Inr (Some (path_str (make_child_relpath vfx_dir (hd (filter P entries)))))"
      using ne by (cases "filter P entries") (simp_all add: fvz)
    ultimately have "\<exists>n \<in> set entries. P n \<and> n = hd (filter P entries) \<and>
        find_version_zero fs shot_name vfx_dir file_ext =
          Inr (Some (path_str (make_child_relpath vfx_dir n)))"
      by blast
    then show "\<exists>n \<in> set entries.
               fnmatch n (shot_base shot_name @ py ''_*_?0000_vfx'' @ file_ext) \<and>
               n = hd (filter (\<lambda>m. fnmatch m (shot_base shot_name @ py ''_*_?0000_vfx'' @ file_ext))
                         entries) \<and>
               find_version_zero fs shot_name vfx_dir file_ext =
                 Inr (Some (path_str (make_child_relpath vfx_dir n)))"
      unfolding P_def .
  }
  {
    assume "\<forall>n \<in> set entries. \<not> fnmatch n (shot_base shot_name @ py ''_*_?0000_vfx'' @ file_ext)"
    then have "\<forall>n \<in> set entries. \<not> P n" by (simp add: P_def)
    then have "filter P entries = []" by (simp add: filter_empty_conv)
    then have "find_version_zero fs shot_name vfx_dir file_ext =
              (case filter Q entries of
                 [] \<Rightarrow> Inr None
               | n # _ \<Rightarrow> Inr (Some (path_str (make_child_relpath vfx_dir n))))"
      by (simp add: fvz split: list.splits)
    then show "find_version_zero fs shot_name vfx_dir file_ext =
              (case filter (\<lambda>m. fnmatch m (shot_base shot_name @ py ''_?0000_vfx'' @ file_ext))
                      entries of
                 [] \<Rightarrow> Inr None
               | n # _ \<Rightarrow> Inr (Some (path_str (make_child_relpath vfx_dir n))))"
      unfolding Q_def .
  }
qed

lemma mixed_zero_tree_entries:
  "mixed_zero_tree vfx_1140 =
     Found (Dir [py ''SEQ_1140_u0000_vfx.mov'', py ''SEQ_1140_comp_w0000_vfx.mov''])"
  by (simp add: mixed_zero_tree_def tree_with_def)

lemma vendor_zero_tree_entries:
  "vendor_zero_tree vfx_1140 = Found (Dir [py ''notes.txt'', py ''SEQ_1140_u0000_vfx.mov''])"
  by (simp add: vendor_zero_tree_def tree_with_def)

theorem find_version_zero_pattern_priority_witness:
  "find_version_zero mixed_zero_tree (py ''SEQ_1140a'') vfx_1140 (py ''.mov'') =
     Inr (Some (path_str (make_child_relpath vfx_1140
       (hd (filter (\<lambda>m. fnmatch m (shot_base (py ''SEQ_1140a'') @ py ''_*_?0000_vfx'' @ py ''.mov''))
              [py ''SEQ_1140_u0000_vfx.mov'', py ''SEQ_1140_comp_w0000_vfx.mov'']))))) \<and>
   hd (filter (\<lambda>m. fnmatch m (shot_base (py ''SEQ_1140a'') @ py ''_*_?0000_vfx'' @ py ''.mov''))
         [py ''SEQ_1140_u0000_vfx.mov'', py ''SEQ_1140_comp_w0000_vfx.mov'']) =
     py ''SEQ_1140_comp_w0000_vfx.mov'' \<and>
   find_version_zero vendor_zero_tree (py ''SEQ_1140a'') vfx_1140 (py ''.mov'') =
     (case filter (\<lambda>m. fnmatch m (shot_base (py ''SEQ_1140a'') @ py ''_?0000_vfx'' @ py ''.mov''))
             [py ''notes.txt'', py ''SEQ_1140_u0000_vfx.mov''] of
        [] \<Rightarrow> Inr None
      | n # _ \<Rightarrow> Inr (Some (path_str (make_child_relpath vfx_1140 n)))) \<and>
   find_version_zero vendor_zero_tree (py ''SEQ_1140a'') vfx_1140 (py ''.mov'') =
     Inr (Some (py ''/shots/SEQ/SEQ_1140/_vfx/SEQ_1140_u0000_vfx.mov''))"
proof -
  let ?v = "py ''SEQ_1140_u0000_vfx.mov''"
  let ?c = "py ''SEQ_1140_comp_w0000_vfx.mov''"
  let ?P = "\<lambda>m. fnmatch m (shot_base (py ''SEQ_1140a'') @ py ''_*_?0000_vfx'' @ py ''.mov'')"
  note mixed = find_version_zero_pattern_priority [where fs = mixed_zero_tree
      and vfx_dir = vfx_1140 and entries = "[?v, ?c]"
      and shot_name = "py ''SEQ_1140a''" and file_ext = "py ''.mov''",
      OF mixed_zero_tree_entries literal_SEQ_1140a]
  note vendor = find_version_zero_pattern_priority [where fs = vendor_zero_tree
      and vfx_dir = vfx_1140 and entries = "[py ''notes.txt'', ?v]"
      and shot_name = "py ''SEQ_1140a''" and file_ext = "py ''.mov''",
      OF vendor_zero_tree_entries literal_SEQ_1140a]
  have some: "\<exists>n \<in> set [?v, ?c]. ?P n"
    by code_simp
  have none: "\<forall>n \<in> set [py ''notes.txt'', ?v]. \<not> ?P n"
    by code_simp
  have first: "hd (filter ?P [?v, ?c]) = ?c"
    by code_simp
  have last: "find_version_zero vendor_zero_tree (py ''SEQ_1140a'') vfx_1140 (py ''.mov'') =
                Inr (Some (py ''/shots/SEQ/SEQ_1140/_vfx/SEQ_1140_u0000_vfx.mov''))"
    by code_simp
  from mixed [THEN conjunct1, THEN mp, OF some]
  have m: "find_version_zero mixed_zero_tree (py ''SEQ_1140a'') vfx_1140 (py ''.mov'') =
             Inr (Some (path_str (make_child_relpath vfx_1140 (hd (filter ?P [?v, ?c])))))"
    by (elim bexE conjE) (simp only:)
  note v = vendor [THEN conjunct2, THEN mp, OF none]
  from m first v last show ?thesis by (intro conjI)
qed

text \<open>
  C3. \<open>find_version_zero\<close> depends on the shot identity only through its shot base:
  two identities with the same base give the same result in every directory tree.
  For \<open>SEQ_1140a\<close> and a directory that holds exactly the two base-named files
  \<open>SEQ_1140_comp_u0000_vfx.mov\<close> and \<open>SEQ_1140_comp_w0000_vfx.mov\<close>, in whatever order
  they are enumerated, the result is the path of one of the two. (A file named after
  the exact identity, \<open>SEQ_1140a_comp_u0000_vfx.mov\<close>, is not found for \<open>SEQ_1140a\<close>.)
\<close>

theorem find_version_zero_uses_shot_base:
  "(shot_base shot_name = shot_base shot_name' \<longrightarrow>
      find_version_zero fs shot_name vfx_dir file_ext =
      find_version_zero fs shot_name' vfx_dir file_ext) \<and>
   (fs vfx_dir = Found (Dir entries) \<and>
    set entries = {py ''SEQ_1140_comp_u0000_vfx.mov'', py ''SEQ_1140_comp_w0000_vfx.mov''} \<longrightarrow>
      find_version_zero fs (py ''SEQ_1140a'') vfx_dir (py ''.mov'') \<in>
        {Inr (Some (path_str (make_child_relpath vfx_dir (py ''SEQ_1140_comp_u0000_vfx.mov'')))),
         Inr (Some (path_str (make_child_relpath vfx_dir (py ''SEQ_1140_comp_w0000_vfx.mov''))))})"
proof (intro conjI impI)
  assume eq: "shot_base shot_name = shot_base shot_name'"
  show "find_version_zero fs shot_name vfx_dir file_ext =
        find_version_zero fs shot_name' vfx_dir file_ext"
    unfolding find_version_zero_def Let_def eq by (rule refl)
next
  let ?u = "py ''SEQ_1140_comp_u0000_vfx.mov''"
  let ?w = "py ''SEQ_1140_comp_w0000_vfx.mov''"
  define P where
    "P = zero_match (shot_base (py ''SEQ_1140a'') @ py ''_*_?0000_vfx'' @ py ''.mov'') (py ''.mov'')"
  assume a: "fs vfx_dir = Found (Dir entries) \<and> set entries = {?u, ?w}"
  have pu: "zero_match (shot_base (py ''SEQ_1140a'') @ py ''_*_?0000_vfx'' @ py ''.mov'')
              (py ''.mov'') ?u"
    by code_simp
  have pw: "zero_match (shot_base (py ''SEQ_1140a'') @ py ''_*_?0000_vfx'' @ py ''.mov'')
              (py ''.mov'') ?w"
    by code_simp
  from a have all: "\<forall>n \<in> set entries. n = ?u \<or> n = ?w" by simp
  have "\<forall>n \<in> set entries. P n"
  proof
    fix n assume "n \<in> set entries"
    with all have "n = ?u \<or> n = ?w" by (rule bspec)
    then show "P n"
    proof
      assume "n = ?u"
      then show "P n" unfolding P_def using pu by (simp only:)
    next
      assume "n = ?w"
      then show "P n" unfolding P_def using pw by (simp only:)
    qed
  qed
  then have keep: "filter P entries = entries" by (simp only: filter_id_conv)
  from a have "set entries \<noteq> {}" by simp
  then have ne: "entries \<noteq> []" by (simp only: set_empty not_False_eq_True)
  then obtain n rest where e: "entries = n # rest" by (cases entries) simp_all
  have "n \<in> set entries" unfolding e by (simp only: list.set_intros)
  with all have n: "n = ?u \<or> n = ?w" by (rule bspec)
  from a have d: "fs vfx_dir = Found (Dir entries)" by (rule conjunct1)
  have fvz: "find_version_zero fs (py ''SEQ_1140a'') vfx_dir (py ''.mov'') =
          Inr (Some (path_str (make_child_relpath vfx_dir n)))"
    unfolding find_version_zero_dir [of fs vfx_dir entries, OF d] P_def [symmetric] keep
    unfolding e by (simp only: list.case)
  from n show "find_version_zero fs (py ''SEQ_1140a'') vfx_dir (py ''.mov'') \<in>
        {Inr (Some (path_str (make_child_relpath vfx_dir ?u))),
         Inr (Some (path_str (make_child_relpath vfx_dir ?w)))}"
  proof
    assume "n = ?u"
    with fvz show ?thesis by (simp only: insertI1)
  next
    assume "n = ?w"
    with fvz show ?thesis by (simp only: insertI1 insertI2)
  qed
qed

lemma zero_tree_entries:
  "zero_tree vfx_1140 =
     Found (Dir [py ''SEQ_1140_comp_u0000_vfx.mov'', py ''SEQ_1140_comp_w0000_vfx.mov''])"
  by (simp add: zero_tree_def tree_with_def)

theorem find_version_zero_uses_shot_base_witness:
  "find_version_zero zero_tree (py ''SEQ_1140a'') vfx_1140 (py ''.mov'') =
     find_version_zero zero_tree (py ''SEQ_1140'') vfx_1140 (py ''.mov'') \<and>
   find_version_zero zero_tree (py ''SEQ_1140a'') vfx_1140 (py ''.mov'') \<in>
     {Inr (Some (path_str (make_child_relpath vfx_1140 (py ''SEQ_1140_comp_u0000_vfx.mov'')))),
      Inr (Some (path_str (make_child_relpath vfx_1140 (py ''SEQ_1140_comp_w0000_vfx.mov''))))} \<and>
   find_version_zero zero_tree (py ''SEQ_1140a'') vfx_1140 (py ''.mov'') =
     Inr (Some (py ''/shots/SEQ/SEQ_1140/_vfx/SEQ_1140_comp_u0000_vfx.mov'')) \<and>
   find_version_zero zero_only_tree (py ''SEQ_1140a'') vfx_1140 (py ''.mov'') = Inr None"
proof -
  let ?u = "py ''SEQ_1140_comp_u0000_vfx.mov''"
  let ?w = "py ''SEQ_1140_comp_w0000_vfx.mov''"
  note hi = find_version_zero_uses_shot_base [where shot_name = "py ''SEQ_1140a''"
      and shot_name' = "py ''SEQ_1140''" and fs = zero_tree
      and vfx_dir = vfx_1140 and file_ext = "py ''.mov''" and entries = "[?u, ?w]"]
  have sb: "shot_base (py ''SEQ_1140a'') = shot_base (py ''SEQ_1140'')"
    by code_simp
  have st: "zero_tree vfx_1140 = Found (Dir [?u, ?w]) \<and> set [?u, ?w] = {?u, ?w}"
    using zero_tree_entries by simp
  have res: "find_version_zero zero_tree (py ''SEQ_1140a'') vfx_1140 (py ''.mov'') =
               Inr (Some (py ''/shots/SEQ/SEQ_1140/_vfx/SEQ_1140_comp_u0000_vfx.mov''))"
    by code_simp
  have exact: "find_version_zero zero_only_tree (py ''SEQ_1140a'') vfx_1140 (py ''.mov'') = Inr None"
    by code_simp
  from hi [THEN conjunct1, THEN mp, OF sb] hi [THEN conjunct2, THEN mp, OF st] res exact
  show ?thesis by (intro conjI)
qed

end
